theory Spec2Isabelle
  imports Complex_Main
begin

unbundle bit_operations_syntax

section \<open>The LS-8 emulator of \<^verbatim>\<open>ls8/cpu.py\<close>\<close>

text \<open>
  The class \<^verbatim>\<open>CPU\<close> is embedded as a record of its fields; every method becomes a
  function that takes the state and returns either the updated state, or the exception it
  raises together with the state the object has at that moment.

  Python's integers are unbounded, so registers and memory cells hold \<open>int\<close>. The only
  other values that can appear are the floats produced by \<^verbatim>\<open>/=\<close> in the ALU. IEEE
  arithmetic is not part of the source; it is a parameter of the model
  (\<open>py_ops\<close>), and everything proved holds for every choice of it.
\<close>

subsection \<open>Values and exceptions\<close>

datatype 'f val = IntV int | FloatV 'f

datatype fault =
    IndexError          \<comment> \<open>list index out of range\<close>
  | TypeError           \<comment> \<open>a float used as index, shifted, or formatted with \<^verbatim>\<open>%02X\<close>\<close>
  | KeyError            \<comment> \<open>\<^verbatim>\<open>self.branchtable[self.ir]\<close> without an entry\<close>
  | ZeroDivisionError
  | OverflowError       \<comment> \<open>an integer too large for a float\<close>
  | ValueError          \<comment> \<open>an integer with too many digits for \<^verbatim>\<open>str\<close>\<close>
  | UnsupportedALU      \<comment> \<open>\<^verbatim>\<open>raise Exception("Unsupported ALU operation")\<close>\<close>
  | SystemExit          \<comment> \<open>\<^verbatim>\<open>sys.exit()\<close>\<close>

record 'f py_ops =
  of_int_f :: "int \<Rightarrow> 'f option"           \<comment> \<open>\<^verbatim>\<open>float(i)\<close>; \<open>None\<close> is OverflowError\<close>
  int_truediv :: "int \<Rightarrow> int \<Rightarrow> 'f option"  \<comment> \<open>\<^verbatim>\<open>i / j\<close> for \<open>j \<noteq> 0\<close>; \<open>None\<close> is OverflowError\<close>
  fadd :: "'f \<Rightarrow> 'f \<Rightarrow> 'f"
  fsub :: "'f \<Rightarrow> 'f \<Rightarrow> 'f"
  fmul :: "'f \<Rightarrow> 'f \<Rightarrow> 'f"
  fdiv :: "'f \<Rightarrow> 'f \<Rightarrow> 'f"                \<comment> \<open>for a divisor that is not zero\<close>
  fis_zero :: "'f \<Rightarrow> bool"                 \<comment> \<open>\<^verbatim>\<open>x == 0.0\<close>\<close>
  int_str_ok :: "int \<Rightarrow> bool"              \<comment> \<open>\<^verbatim>\<open>str(i)\<close> is within the limit on digits\<close>

text \<open>
  The last field is what \<^verbatim>\<open>print\<close> needs: since CPython 3.11 the conversion of an integer
  to decimal raises ValueError beyond a configurable number of digits (4300 by default);
  older interpreters, and newer ones with the limit switched off, convert every integer.
\<close>

fun is_int :: "'f val \<Rightarrow> bool" where
  "is_int (IntV _) = True"
| "is_int (FloatV _) = False"

subsection \<open>Instruction opcodes\<close>

definition HLT :: int where "HLT = 1"      \<comment> \<open>\<^verbatim>\<open>0b00000001\<close>\<close>
definition LDI :: int where "LDI = 130"    \<comment> \<open>\<^verbatim>\<open>0b10000010\<close>\<close>
definition PRN :: int where "PRN = 71"     \<comment> \<open>\<^verbatim>\<open>0b01000111\<close>\<close>
definition ADD :: int where "ADD = 160"    \<comment> \<open>\<^verbatim>\<open>0b10100000\<close>\<close>
definition SUB :: int where "SUB = 161"    \<comment> \<open>\<^verbatim>\<open>0b10100001\<close>\<close>
definition MUL :: int where "MUL = 162"    \<comment> \<open>\<^verbatim>\<open>0b10100010\<close>\<close>
definition DIV :: int where "DIV = 163"    \<comment> \<open>\<^verbatim>\<open>0b10100011\<close>\<close>
definition PUSH :: int where "PUSH = 69"   \<comment> \<open>\<^verbatim>\<open>0b01000101\<close>\<close>
definition POP :: int where "POP = 70"     \<comment> \<open>\<^verbatim>\<open>0b01000110\<close>\<close>

subsection \<open>Python list indexing\<close>

text \<open>
  \<^verbatim>\<open>xs[i]\<close> accepts \<open>-len(xs) \<le> i < len(xs)\<close>; a negative index counts from the end.
  Anything else raises IndexError, and a float index raises TypeError.
\<close>

definition py_index :: "nat \<Rightarrow> int \<Rightarrow> nat option" where
  "py_index n i =
     (if 0 \<le> i \<and> i < int n then Some (nat i)
      else if - int n \<le> i \<and> i < 0 then Some (nat (i + int n))
      else None)"

definition list_get :: "'a list \<Rightarrow> 'f val \<Rightarrow> fault + 'a" where
  "list_get xs k =
     (case k of
        FloatV _ \<Rightarrow> Inl TypeError
      | IntV i \<Rightarrow> (case py_index (length xs) i of
                     None \<Rightarrow> Inl IndexError
                   | Some j \<Rightarrow> Inr (xs ! j)))"

definition list_set :: "'a list \<Rightarrow> 'f val \<Rightarrow> 'a \<Rightarrow> fault + 'a list" where
  "list_set xs k v =
     (case k of
        FloatV _ \<Rightarrow> Inl TypeError
      | IntV i \<Rightarrow> (case py_index (length xs) i of
                     None \<Rightarrow> Inl IndexError
                   | Some j \<Rightarrow> Inr (xs[j := v])))"

subsection \<open>Python arithmetic on int and float\<close>

definition to_float :: "'f py_ops \<Rightarrow> 'f val \<Rightarrow> fault + 'f" where
  "to_float fs v =
     (case v of
        FloatV x \<Rightarrow> Inr x
      | IntV i \<Rightarrow> (case of_int_f fs i of None \<Rightarrow> Inl OverflowError | Some x \<Rightarrow> Inr x))"

definition float_binop ::
  "'f py_ops \<Rightarrow> ('f \<Rightarrow> 'f \<Rightarrow> fault + 'f) \<Rightarrow> 'f val \<Rightarrow> 'f val \<Rightarrow> fault + 'f val" where
  "float_binop fs f a b =
     (case to_float fs a of
        Inl e \<Rightarrow> Inl e
      | Inr x \<Rightarrow> (case to_float fs b of
                    Inl e \<Rightarrow> Inl e
                  | Inr y \<Rightarrow> (case f x y of Inl e \<Rightarrow> Inl e | Inr r \<Rightarrow> Inr (FloatV r))))"

fun py_add :: "'f py_ops \<Rightarrow> 'f val \<Rightarrow> 'f val \<Rightarrow> fault + 'f val" where
  "py_add fs (IntV x) (IntV y) = Inr (IntV (x + y))"
| "py_add fs a b = float_binop fs (\<lambda>x y. Inr (fadd fs x y)) a b"

fun py_sub :: "'f py_ops \<Rightarrow> 'f val \<Rightarrow> 'f val \<Rightarrow> fault + 'f val" where
  "py_sub fs (IntV x) (IntV y) = Inr (IntV (x - y))"
| "py_sub fs a b = float_binop fs (\<lambda>x y. Inr (fsub fs x y)) a b"

fun py_mul :: "'f py_ops \<Rightarrow> 'f val \<Rightarrow> 'f val \<Rightarrow> fault + 'f val" where
  "py_mul fs (IntV x) (IntV y) = Inr (IntV (x * y))"
| "py_mul fs a b = float_binop fs (\<lambda>x y. Inr (fmul fs x y)) a b"

text \<open>
  True division: the result is always a float, and a zero divisor raises. Between two
  integers the divisor is tested first; as soon as one operand is a float both are converted
  (which may overflow) and then the divisor is tested, where the integer \<open>0\<close> converts to
  the float zero.
\<close>

fun py_truediv :: "'f py_ops \<Rightarrow> 'f val \<Rightarrow> 'f val \<Rightarrow> fault + 'f val" where
  "py_truediv fs (IntV x) (IntV y) =
     (if y = 0 then Inl ZeroDivisionError
      else (case int_truediv fs x y of
              None \<Rightarrow> Inl OverflowError
            | Some r \<Rightarrow> Inr (FloatV r)))"
| "py_truediv fs (FloatV x) (IntV y) =
     (if y = 0 then Inl ZeroDivisionError
      else float_binop fs
             (\<lambda>x y. if fis_zero fs y then Inl ZeroDivisionError else Inr (fdiv fs x y))
             (FloatV x) (IntV y))"
| "py_truediv fs a b =
     float_binop fs
       (\<lambda>x y. if fis_zero fs y then Inl ZeroDivisionError else Inr (fdiv fs x y)) a b"

text \<open>\<^verbatim>\<open>v == 0\<close>, which holds for the integer 0 and for a float zero.\<close>

fun py_is_zero :: "'f py_ops \<Rightarrow> 'f val \<Rightarrow> bool" where
  "py_is_zero fs (IntV i) = (i = 0)"
| "py_is_zero fs (FloatV x) = fis_zero fs x"

text \<open>\<^verbatim>\<open>print(v)\<close> succeeds: always for a float, for an integer if \<^verbatim>\<open>str\<close> accepts it.\<close>

fun can_print :: "'f py_ops \<Rightarrow> 'f val \<Rightarrow> bool" where
  "can_print fs (IntV i) = int_str_ok fs i"
| "can_print fs (FloatV x) = True"

subsection \<open>The CPU object\<close>

record 'f cpu =
  ram :: "'f val list"
  reg :: "'f val list"
  pc :: int
  ir :: "'f val option"     \<comment> \<open>\<open>None\<close> until the first fetch\<close>
  mar :: int
  mdr :: "'f val option"
  sp :: int
  out :: "'f val list"      \<comment> \<open>the values printed by PRN, oldest first\<close>

text \<open>\<^verbatim>\<open>CPU.__init__\<close>\<close>

definition init_cpu :: "'f cpu" where
  "init_cpu =
     \<lparr> ram = replicate 256 (IntV 0),
       reg = (replicate 8 (IntV 0))[7 := IntV 243],
       pc = 0, ir = None, mar = 0, mdr = None,
       sp = 243,
       out = [] \<rparr>"

text \<open>\<^verbatim>\<open>ram_read\<close> and \<^verbatim>\<open>ram_write\<close>: MAR and MDR are set before the list is touched.\<close>

definition ram_read :: "int \<Rightarrow> 'f cpu \<Rightarrow> (fault \<times> 'f cpu) + ('f val \<times> 'f cpu)" where
  "ram_read address s =
     (let s1 = s\<lparr>mar := address\<rparr> in
      case py_index (length (ram s1)) (mar s1) of
        None \<Rightarrow> Inl (IndexError, s1)
      | Some j \<Rightarrow> Inr (ram s1 ! j, s1\<lparr>mdr := Some (ram s1 ! j)\<rparr>))"

definition ram_write :: "int \<Rightarrow> 'f val \<Rightarrow> 'f cpu \<Rightarrow> (fault \<times> 'f cpu) + 'f cpu" where
  "ram_write address v s =
     (let s1 = s\<lparr>mar := address, mdr := Some v\<rparr> in
      case py_index (length (ram s1)) (mar s1) of
        None \<Rightarrow> Inl (IndexError, s1)
      | Some j \<Rightarrow> Inr (s1\<lparr>ram := (ram s1)[j := v]\<rparr>))"

subsection \<open>ALU\<close>

text \<open>
  \<^verbatim>\<open>self.reg[reg_a] OP= self.reg[reg_b]\<close>: the target is loaded first, then the right-hand
  side, then the operation runs, then the result is stored.
\<close>

definition reg_aug_assign ::
  "('f val \<Rightarrow> 'f val \<Rightarrow> fault + 'f val) \<Rightarrow> 'f val \<Rightarrow> 'f val \<Rightarrow> 'f cpu \<Rightarrow> (fault \<times> 'f cpu) + 'f cpu" where
  "reg_aug_assign f reg_a reg_b s =
     (case list_get (reg s) reg_a of
        Inl e \<Rightarrow> Inl (e, s)
      | Inr x \<Rightarrow>
     (case list_get (reg s) reg_b of
        Inl e \<Rightarrow> Inl (e, s)
      | Inr y \<Rightarrow>
     (case f x y of
        Inl e \<Rightarrow> Inl (e, s)
      | Inr r \<Rightarrow>
     (case list_set (reg s) reg_a r of
        Inl e \<Rightarrow> Inl (e, s)
      | Inr rs \<Rightarrow> Inr (s\<lparr>reg := rs\<rparr>)))))"

definition alu :: "'f py_ops \<Rightarrow> int \<Rightarrow> 'f val \<Rightarrow> 'f val \<Rightarrow> 'f cpu \<Rightarrow> (fault \<times> 'f cpu) + 'f cpu" where
  "alu fs op reg_a reg_b s =
     (if op = ADD then reg_aug_assign (py_add fs) reg_a reg_b s
      else if op = SUB then reg_aug_assign (py_sub fs) reg_a reg_b s
      else if op = MUL then reg_aug_assign (py_mul fs) reg_a reg_b s
      else if op = DIV then reg_aug_assign (py_truediv fs) reg_a reg_b s
      else Inl (UnsupportedALU, s))"

subsection \<open>Trace\<close>

text \<open>
  \<^verbatim>\<open>trace\<close> reads the three bytes at PC again and formats them and the eight registers
  with \<^verbatim>\<open>%02X\<close>, which raises TypeError on a float. The printed text itself is not
  modelled.
\<close>

fun trace_regs :: "'f val list \<Rightarrow> nat list \<Rightarrow> fault option" where
  "trace_regs rs [] = None"
| "trace_regs rs (i # is) =
     (case list_get rs (IntV (int i) :: 'f val) of
        Inl e \<Rightarrow> Some e
      | Inr v \<Rightarrow> if is_int v then trace_regs rs is else Some TypeError)"

definition trace :: "'f cpu \<Rightarrow> (fault \<times> 'f cpu) + 'f cpu" where
  "trace s =
     (case ram_read (pc s) s of
        Inl r \<Rightarrow> Inl r
      | Inr (b0, s1) \<Rightarrow>
     (case ram_read (pc s1 + 1) s1 of
        Inl r \<Rightarrow> Inl r
      | Inr (b1, s2) \<Rightarrow>
     (case ram_read (pc s2 + 2) s2 of
        Inl r \<Rightarrow> Inl r
      | Inr (b2, s3) \<Rightarrow>
     if \<not> (is_int b0 \<and> is_int b1 \<and> is_int b2) then Inl (TypeError, s3)
     else (case trace_regs (reg s3) [0..<8] of
             Some e \<Rightarrow> Inl (e, s3)
           | None \<Rightarrow> Inr s3))))"

subsection \<open>Instruction handlers and the branch table\<close>

definition handle_hlt :: "'f cpu \<Rightarrow> (fault \<times> 'f cpu) + 'f cpu" where
  "handle_hlt s = Inl (SystemExit, s)"

definition handle_ldi :: "'f cpu \<Rightarrow> (fault \<times> 'f cpu) + 'f cpu" where
  "handle_ldi s =
     (case ram_read (pc s + 1) s of
        Inl r \<Rightarrow> Inl r
      | Inr (register, s1) \<Rightarrow>
     (case ram_read (pc s1 + 2) s1 of
        Inl r \<Rightarrow> Inl r
      | Inr (v, s2) \<Rightarrow>
     (case list_set (reg s2) register v of
        Inl e \<Rightarrow> Inl (e, s2)
      | Inr rs \<Rightarrow> Inr (s2\<lparr>reg := rs\<rparr>))))"

definition handle_prn :: "'f py_ops \<Rightarrow> 'f cpu \<Rightarrow> (fault \<times> 'f cpu) + 'f cpu" where
  "handle_prn fs s =
     (case ram_read (pc s + 1) s of
        Inl r \<Rightarrow> Inl r
      | Inr (register, s1) \<Rightarrow>
     (case list_get (reg s1) register of
        Inl e \<Rightarrow> Inl (e, s1)
      | Inr v \<Rightarrow>
          if can_print fs v then Inr (s1\<lparr>out := out s1 @ [v]\<rparr>)
          else Inl (ValueError, s1)))"

definition handle_push :: "'f cpu \<Rightarrow> (fault \<times> 'f cpu) + 'f cpu" where
  "handle_push s =
     (let s0 = s\<lparr>sp := sp s - 1\<rparr> in
      case ram_read (pc s0 + 1) s0 of
        Inl r \<Rightarrow> Inl r
      | Inr (register, s1) \<Rightarrow>
     (case list_get (reg s1) register of
        Inl e \<Rightarrow> Inl (e, s1)
      | Inr v \<Rightarrow> ram_write (sp s1) v s1))"

definition handle_pop :: "'f cpu \<Rightarrow> (fault \<times> 'f cpu) + 'f cpu" where
  "handle_pop s =
     (case ram_read (sp s) s of
        Inl r \<Rightarrow> Inl r
      | Inr (v, s1) \<Rightarrow>
     (case ram_read (pc s1 + 1) s1 of
        Inl r \<Rightarrow> Inl r
      | Inr (register, s2) \<Rightarrow>
     (case list_set (reg s2) register v of
        Inl e \<Rightarrow> Inl (e, s2)
      | Inr rs \<Rightarrow> Inr (s2\<lparr>reg := rs, sp := sp s2 + 1\<rparr>))))"

datatype handler = Handle_hlt | Handle_ldi | Handle_prn | Handle_push | Handle_pop

definition branchtable :: "int \<rightharpoonup> handler" where
  "branchtable =
     [HLT \<mapsto> Handle_hlt, LDI \<mapsto> Handle_ldi, PRN \<mapsto> Handle_prn,
      PUSH \<mapsto> Handle_push, POP \<mapsto> Handle_pop]"

fun call_handler :: "'f py_ops \<Rightarrow> handler \<Rightarrow> 'f cpu \<Rightarrow> (fault \<times> 'f cpu) + 'f cpu" where
  "call_handler fs Handle_hlt s = handle_hlt s"
| "call_handler fs Handle_ldi s = handle_ldi s"
| "call_handler fs Handle_prn s = handle_prn fs s"
| "call_handler fs Handle_push s = handle_push s"
| "call_handler fs Handle_pop s = handle_pop s"

subsection \<open>The run loop\<close>

text \<open>
  \<open>dispatch\<close> is the \<^verbatim>\<open>if is_alu_operation: ... else: ...\<close> statement of \<^verbatim>\<open>run\<close>;
  \<open>step\<close> is one pass through the loop body. \<open>Inr\<close> means that the body ran to its end
  and the loop goes round again.
\<close>

definition dispatch ::
  "'f py_ops \<Rightarrow> int \<Rightarrow> 'f val \<Rightarrow> 'f val \<Rightarrow> 'f cpu \<Rightarrow> (fault \<times> 'f cpu) + 'f cpu" where
  "dispatch fs instruction operand_a operand_b s =
     (let is_alu_operation = (drop_bit 5 instruction) AND 1 in
      if is_alu_operation \<noteq> 0 then alu fs instruction operand_a operand_b s
      else (case trace s of
              Inl r \<Rightarrow> Inl r
            | Inr s1 \<Rightarrow> (case branchtable instruction of
                           None \<Rightarrow> Inl (KeyError, s1)
                         | Some h \<Rightarrow> call_handler fs h s1)))"

definition step :: "'f py_ops \<Rightarrow> 'f cpu \<Rightarrow> (fault \<times> 'f cpu) + 'f cpu" where
  "step fs s =
     (case ram_read (pc s) s of
        Inl r \<Rightarrow> Inl r
      | Inr (instruction, s1) \<Rightarrow>
     (let s2 = s1\<lparr>ir := Some instruction\<rparr> in
      case instruction of
        FloatV _ \<Rightarrow> Inl (TypeError, s2)
      | IntV i \<Rightarrow>
     (let num_operands = drop_bit 6 i in
      case ram_read (pc s2 + 1) s2 of
        Inl r \<Rightarrow> Inl r
      | Inr (operand_a, s3) \<Rightarrow>
     (case ram_read (pc s3 + 2) s3 of
        Inl r \<Rightarrow> Inl r
      | Inr (operand_b, s4) \<Rightarrow>
     (case dispatch fs i operand_a operand_b s4 of
        Inl r \<Rightarrow> Inl r
      | Inr s5 \<Rightarrow> Inr (s5\<lparr>pc := pc s5 + (num_operands + 1)\<rparr>))))))"

text \<open>
  \<^verbatim>\<open>run\<close>: the flag \<^verbatim>\<open>running\<close> is never cleared, so the loop is left only by an
  exception, \<^verbatim>\<open>SystemExit\<close> included. The result is that exception and the final state.
  The loop always ends: each completed pass moves PC forward, and the fetch fails once PC
  has left the memory.
\<close>

function run :: "'f py_ops \<Rightarrow> 'f cpu \<Rightarrow> fault \<times> 'f cpu" where
  "run fs s = (case step fs s of Inl r \<Rightarrow> r | Inr s' \<Rightarrow> run fs s')"
  by pat_completeness auto
termination
proof (relation "measure (\<lambda>(fs, s). nat (int (length (ram s)) - pc s))")
  show "wf (measure (\<lambda>(fs :: 'f py_ops, s :: 'f cpu). nat (int (length (ram s)) - pc s)))"
    by simp
next
  fix fs :: "'f py_ops" and s s' :: "'f cpu"
  assume st: "step fs s = Inr s'"
  have rd: "\<And>a (t :: 'f cpu) v t'. ram_read a t = Inr (v, t') \<Longrightarrow>
              a < int (length (ram t)) \<and> pc t' = pc t \<and> ram t' = ram t"
    by (auto simp: ram_read_def py_index_def Let_def split: option.splits if_splits)
  have wr: "\<And>a v (t :: 'f cpu) t'. ram_write a v t = Inr t' \<Longrightarrow>
              pc t' = pc t \<and> length (ram t') = length (ram t)"
    by (auto simp: ram_write_def Let_def split: option.splits)
  have hd: "\<And>h (t :: 'f cpu) t'. call_handler fs h t = Inr t' \<Longrightarrow>
              h \<noteq> Handle_hlt \<and> pc t' = pc t \<and> length (ram t') = length (ram t)"
    subgoal for h t t'
      by (cases h)
         (auto simp: handle_hlt_def handle_ldi_def handle_prn_def handle_push_def handle_pop_def
               Let_def split: sum.splits prod.splits if_splits dest!: rd wr)
    done
  have tr: "\<And>(t :: 'f cpu) t'. trace t = Inr t' \<Longrightarrow> pc t' = pc t \<and> ram t' = ram t"
    by (auto simp: trace_def split: sum.splits prod.splits if_splits option.splits dest!: rd)
  have al: "\<And>i a b (t :: 'f cpu) t'. alu fs i a b t = Inr t' \<Longrightarrow>
              pc t' = pc t \<and> ram t' = ram t \<and> 128 \<le> i"
    by (auto simp: alu_def reg_aug_assign_def ADD_def SUB_def MUL_def DIV_def
             split: sum.splits if_splits)
  have bt: "\<And>i h. branchtable i = Some h \<Longrightarrow> h = Handle_hlt \<or> 64 \<le> i"
    by (auto simp: branchtable_def HLT_def LDI_def PRN_def PUSH_def POP_def split: if_splits)
  have di: "\<And>i a b (t :: 'f cpu) t'. dispatch fs i a b t = Inr t' \<Longrightarrow>
              pc t' = pc t \<and> length (ram t') = length (ram t) \<and> 64 \<le> i"
    by (fastforce simp: dispatch_def Let_def split: if_splits sum.splits option.splits
          dest!: al tr hd bt)
  have di': "\<And>i a b (t :: 'f cpu) t'. dispatch fs i a b t = Inr t' \<Longrightarrow>
              pc t' = pc t \<and> length (ram t') = length (ram t) \<and> 0 \<le> i"
    using di by force
  from st have "length (ram s') = length (ram s) \<and> pc s < pc s' \<and> pc s < int (length (ram s))"
    by (auto simp: step_def Let_def split: sum.splits prod.splits val.splits dest!: rd di')
  then show "((fs, s'), (fs, s)) \<in> measure (\<lambda>(fs, s). nat (int (length (ram s)) - pc s))"
    by auto
qed

subsection \<open>Observations used to state the properties\<close>

text \<open>
  \<open>peek\<close> is the memory cell a Python address denotes, without the side effect on MAR and
  MDR; \<open>reg_peek\<close> is the register an operand value names; \<open>named_reg\<close> is the value of the
  register named by the byte at PC+1.
\<close>

definition peek :: "int \<Rightarrow> 'f cpu \<Rightarrow> 'f val option" where
  "peek a s = (case py_index (length (ram s)) a of None \<Rightarrow> None | Some j \<Rightarrow> Some (ram s ! j))"

definition reg_peek :: "'f val \<Rightarrow> 'f cpu \<Rightarrow> 'f val option" where
  "reg_peek k s = (case list_get (reg s) k of Inl _ \<Rightarrow> None | Inr v \<Rightarrow> Some v)"

definition named_reg :: "'f cpu \<Rightarrow> 'f val option" where
  "named_reg s = (case peek (pc s + 1) s of None \<Rightarrow> None | Some k \<Rightarrow> reg_peek k s)"

text \<open>
  \<open>reaches_table s\<close>: a pass of the loop that has fetched an instruction without the ALU
  bit gets as far as the lookup in the branch table, that is, both operand bytes can be
  read and \<^verbatim>\<open>trace\<close> finds only integers to format.
\<close>

definition reaches_table :: "'f cpu \<Rightarrow> bool" where
  "reaches_table s =
     (case peek (pc s + 1) s of
        None \<Rightarrow> False
      | Some b1 \<Rightarrow>
     (case peek (pc s + 2) s of
        None \<Rightarrow> False
      | Some b2 \<Rightarrow> is_int b1 \<and> is_int b2 \<and> trace_regs (reg s) [0..<8] = None))"

text \<open>
  \<open>push_cycles fs n s\<close> runs \<open>n\<close> passes of the loop from \<open>s\<close>, each of which must fetch PUSH
  and complete; it returns the values of the registers that were pushed, in the order of
  the pushes. \<open>pop_cycles\<close> does the same for POP and returns the values the named
  registers hold after each pop.
\<close>

fun push_cycles :: "'f py_ops \<Rightarrow> nat \<Rightarrow> 'f cpu \<Rightarrow> ('f val list \<times> 'f cpu) option" where
  "push_cycles fs 0 s = Some ([], s)"
| "push_cycles fs (Suc n) s =
     (if peek (pc s) s \<noteq> Some (IntV PUSH) then None
      else (case named_reg s of
              None \<Rightarrow> None
            | Some v \<Rightarrow>
           (case step fs s of
              Inl _ \<Rightarrow> None
            | Inr s1 \<Rightarrow>
           (case push_cycles fs n s1 of
              None \<Rightarrow> None
            | Some (vs, s2) \<Rightarrow> Some (v # vs, s2)))))"

fun pop_cycles :: "'f py_ops \<Rightarrow> nat \<Rightarrow> 'f cpu \<Rightarrow> ('f val list \<times> 'f cpu) option" where
  "pop_cycles fs 0 s = Some ([], s)"
| "pop_cycles fs (Suc n) s =
     (if peek (pc s) s \<noteq> Some (IntV POP) then None
      else (case step fs s of
              Inl _ \<Rightarrow> None
            | Inr s1 \<Rightarrow>
           (case named_reg (s1\<lparr>pc := pc s\<rparr>) of
              None \<Rightarrow> None
            | Some w \<Rightarrow>
           (case pop_cycles fs n s1 of
              None \<Rightarrow> None
            | Some (ws, s2) \<Rightarrow> Some (w # ws, s2)))))"

text \<open>
  A \<open>py_ops\<close> for running concrete programs: every float is the same opaque value, so
  only the integer results of such a run mean anything; \<^verbatim>\<open>str\<close> has no limit.
\<close>

definition opaque_floats :: "unit py_ops" where
  "opaque_floats =
     \<lparr> of_int_f = (\<lambda>_. Some ()), int_truediv = (\<lambda>_ _. Some ()),
       fadd = (\<lambda>_ _. ()), fsub = (\<lambda>_ _. ()), fmul = (\<lambda>_ _. ()), fdiv = (\<lambda>_ _. ()),
       fis_zero = (\<lambda>_. False), int_str_ok = (\<lambda>_. True) \<rparr>"

text \<open>
  The loop of \<^verbatim>\<open>load\<close>, from the point where the lines of the file have been converted
  with \<^verbatim>\<open>int(instruction, 2)\<close>: each byte is stored at MAR, which is then incremented.
  Reading and parsing the file is not modelled.
\<close>

fun load_image :: "int list \<Rightarrow> 'f cpu \<Rightarrow> (fault \<times> 'f cpu) + 'f cpu" where
  "load_image [] s = Inr s"
| "load_image (b # bs) s =
     (case py_index (length (ram s)) (mar s) of
        None \<Rightarrow> Inl (IndexError, s)
      | Some j \<Rightarrow> load_image bs (s\<lparr>ram := (ram s)[j := IntV b], mar := mar s + 1\<rparr>))"

text \<open>
  The machine after \<^verbatim>\<open>__init__\<close> and \<^verbatim>\<open>load\<close> of the given bytes, with the opaque
  floats; the concrete machines below are built with it.
\<close>

definition boot :: "int list \<Rightarrow> unit cpu" where
  "boot bytes = (case load_image bytes init_cpu of Inr s \<Rightarrow> s | Inl (e, s) \<Rightarrow> s)"

text \<open>
  A second \<open>py_ops\<close>, with floats that can be told apart: rationals, that is floats without
  rounding, with the range of an IEEE double. It agrees with CPython on what the program
  below needs: \<^verbatim>\<open>0 / 5\<close> is the float zero, and \<^verbatim>\<open>float(i)\<close> raises OverflowError for
  \<open>\<bar>i\<bar> \<ge> 2 ^ 1024\<close>.
\<close>

definition ranged_floats :: "rat py_ops" where
  "ranged_floats =
     \<lparr> of_int_f = (\<lambda>i. if \<bar>i\<bar> < 2 ^ 1024 then Some (of_int i) else None),
       int_truediv = (\<lambda>i j. if \<bar>of_int i / of_int j :: rat\<bar> < 2 ^ 1024
                              then Some (of_int i / of_int j) else None),
       fadd = (\<lambda>x y. x + y), fsub = (\<lambda>x y. x - y), fmul = (\<lambda>x y. x * y),
       fdiv = (\<lambda>x y. x / y),
       fis_zero = (\<lambda>x. x = 0), int_str_ok = (\<lambda>_. True) \<rparr>"

definition boot_ranged :: "int list \<Rightarrow> rat cpu" where
  "boot_ranged bytes = (case load_image bytes init_cpu of Inr s \<Rightarrow> s | Inl (e, s) \<Rightarrow> s)"

section \<open>Basic facts\<close>

lemmas opcode_defs = HLT_def LDI_def PRN_def ADD_def SUB_def MUL_def DIV_def PUSH_def POP_def


subsection \<open>Python indexing\<close>

lemma py_index_SomeD:
  "py_index n i = Some j \<Longrightarrow> j < n \<and> - int n \<le> i \<and> i < int n"
  by (auto simp: py_index_def split: if_splits)

lemma py_index_mod:
  assumes "py_index n i = Some j"
  shows "int j = i mod int n"
proof (cases "0 \<le> i")
  case True
  with assms show ?thesis by (auto simp: py_index_def split: if_splits)
next
  case False
  with assms have b: "- int n \<le> i" "i < 0" and j: "int j = i + int n"
    by (auto simp: py_index_def split: if_splits)
  have "(i + int n) mod int n = i mod int n" by simp
  moreover have "(i + int n) mod int n = i + int n"
    using b by (intro mod_pos_pos_trivial) auto
  ultimately show ?thesis using j by simp
qed

lemma py_index_inj:
  assumes a: "py_index n a = Some c" and b: "py_index n b = Some c"
    and d: "\<bar>a - b\<bar> < int n"
  shows "a = b"
proof -
  have "a mod int n = b mod int n"
    using py_index_mod [OF a] py_index_mod [OF b] by simp
  then have "int n dvd (a - b)"
    by (simp add: mod_eq_dvd_iff)
  then have "a - b = 0"
    using d by (meson dvd_abs_iff zdvd_not_zless zero_less_abs_iff)
  then show ?thesis by simp
qed

subsection \<open>Memory access\<close>

lemma ram_read_peek:
  "ram_read a s =
     (case peek a s of
        None \<Rightarrow> Inl (IndexError, s\<lparr>mar := a\<rparr>)
      | Some v \<Rightarrow> Inr (v, s\<lparr>mar := a, mdr := Some v\<rparr>))"
  by (simp add: ram_read_def peek_def Let_def split: option.splits)

lemma ram_write_index:
  "ram_write a v s =
     (case py_index (length (ram s)) a of
        None \<Rightarrow> Inl (IndexError, s\<lparr>mar := a, mdr := Some v\<rparr>)
      | Some j \<Rightarrow> Inr (s\<lparr>mar := a, mdr := Some v, ram := (ram s)[j := v]\<rparr>))"
  by (simp add: ram_write_def Let_def split: option.splits)

lemma peek_simps [simp]:
  "peek a (s\<lparr>mar := m\<rparr>) = peek a s"
  "peek a (s\<lparr>mdr := d\<rparr>) = peek a s"
  "peek a (s\<lparr>ir := i\<rparr>) = peek a s"
  "peek a (s\<lparr>pc := p\<rparr>) = peek a s"
  "peek a (s\<lparr>sp := q\<rparr>) = peek a s"
  "peek a (s\<lparr>reg := r\<rparr>) = peek a s"
  "peek a (s\<lparr>out := ou\<rparr>) = peek a s"
  by (simp_all add: peek_def split: option.split)

lemma peek_SomeD: "peek a s = Some v \<Longrightarrow> - int (length (ram s)) \<le> a \<and> a < int (length (ram s))"
  by (auto simp: peek_def split: option.splits dest: py_index_SomeD)

lemma peek_ram_cong: "ram s = ram t \<Longrightarrow> peek a s = peek a t"
  by (simp add: peek_def split: option.split)

lemma reg_peek_simps [simp]:
  "reg_peek k (s\<lparr>mar := m\<rparr>) = reg_peek k s"
  "reg_peek k (s\<lparr>mdr := d\<rparr>) = reg_peek k s"
  "reg_peek k (s\<lparr>ir := i\<rparr>) = reg_peek k s"
  "reg_peek k (s\<lparr>pc := p\<rparr>) = reg_peek k s"
  "reg_peek k (s\<lparr>sp := q\<rparr>) = reg_peek k s"
  "reg_peek k (s\<lparr>ram := r\<rparr>) = reg_peek k s"
  "reg_peek k (s\<lparr>out := ou\<rparr>) = reg_peek k s"
  by (simp_all add: reg_peek_def)

subsection \<open>Opcodes and the branch table\<close>

lemma bit5_opcodes [simp]:
  "drop_bit 5 HLT AND 1 = 0" "drop_bit 5 LDI AND 1 = 0" "drop_bit 5 PRN AND 1 = 0"
  "drop_bit 5 PUSH AND 1 = 0" "drop_bit 5 POP AND 1 = 0"
  "drop_bit 5 ADD AND 1 = 1" "drop_bit 5 SUB AND 1 = 1" "drop_bit 5 MUL AND 1 = 1"
  "drop_bit 5 DIV AND 1 = 1"
  by (simp_all add: opcode_defs drop_bit_eq_div and_one_eq)

lemma operand_count:
  "drop_bit 6 LDI = 2" "drop_bit 6 PRN = 1" "drop_bit 6 PUSH = 1" "drop_bit 6 POP = 1"
  "drop_bit 6 ADD = 2" "drop_bit 6 SUB = 2" "drop_bit 6 MUL = 2" "drop_bit 6 DIV = 2"
  "drop_bit 6 HLT = 0"
  by (simp_all add: opcode_defs drop_bit_eq_div)

lemma branchtable_simps [simp]:
  "branchtable HLT = Some Handle_hlt" "branchtable LDI = Some Handle_ldi"
  "branchtable PRN = Some Handle_prn" "branchtable PUSH = Some Handle_push"
  "branchtable POP = Some Handle_pop"
  by (simp_all add: branchtable_def opcode_defs)

lemma branchtable_SomeD:
  "branchtable i = Some h \<Longrightarrow>
     (i = HLT \<and> h = Handle_hlt) \<or> (i = LDI \<and> h = Handle_ldi) \<or> (i = PRN \<and> h = Handle_prn)
     \<or> (i = PUSH \<and> h = Handle_push) \<or> (i = POP \<and> h = Handle_pop)"
  by (auto simp: branchtable_def opcode_defs split: if_splits)

subsection \<open>Handlers, trace and dispatch\<close>

lemma trace_unfold:
  assumes "peek (pc s) s = Some b0" and "peek (pc s + 1) s = Some b1"
    and "peek (pc s + 2) s = Some b2"
  shows "trace s =
     (if \<not> (is_int b0 \<and> is_int b1 \<and> is_int b2)
      then Inl (TypeError, s\<lparr>mar := pc s + 2, mdr := Some b2\<rparr>)
      else (case trace_regs (reg s) [0..<8] of
              Some e \<Rightarrow> Inl (e, s\<lparr>mar := pc s + 2, mdr := Some b2\<rparr>)
            | None \<Rightarrow> Inr (s\<lparr>mar := pc s + 2, mdr := Some b2\<rparr>)))"
  using assms by (simp add: trace_def ram_read_peek)

lemma trace_InrD:
  assumes "trace s = Inr t"
  shows "\<exists>b. peek (pc s + 2) s = Some b \<and> t = s\<lparr>mar := pc s + 2, mdr := Some b\<rparr>"
  using assms
  by (auto simp: trace_def ram_read_peek split: option.splits if_splits)

lemma trace_regs_not_exit: "trace_regs rs js = Some e \<Longrightarrow> e \<noteq> SystemExit"
  by (induction js) (auto simp: list_get_def split: sum.splits option.splits if_splits)

lemma handle_push_InrD:
  assumes "handle_push s = Inr s'"
  shows "\<exists>k v c. peek (pc s + 1) s = Some k \<and> reg_peek k s = Some v
           \<and> py_index (length (ram s)) (sp s - 1) = Some c
           \<and> s' = s\<lparr>sp := sp s - 1, mar := sp s - 1, mdr := Some v, ram := (ram s)[c := v]\<rparr>"
  using assms
  by (auto simp: handle_push_def ram_read_peek ram_write_index reg_peek_def Let_def
           split: option.splits sum.splits)

lemma handle_pop_InrD:
  assumes "handle_pop s = Inr s'"
  shows "\<exists>v k j. peek (sp s) s = Some v \<and> peek (pc s + 1) s = Some (IntV k)
           \<and> py_index (length (reg s)) k = Some j
           \<and> s' = s\<lparr>mar := pc s + 1, mdr := Some (IntV k), reg := (reg s)[j := v],
                    sp := sp s + 1\<rparr>"
  using assms
  by (auto simp: handle_pop_def ram_read_peek list_set_def
           split: option.splits sum.splits val.splits)

lemma handle_ldi_exact:
  assumes "py_index (length (reg s)) i = Some j"
    and "peek (pc s + 1) s = Some (IntV i)" and "peek (pc s + 2) s = Some v"
  shows "handle_ldi s = Inr (s\<lparr>mar := pc s + 2, mdr := Some v, reg := (reg s)[j := v]\<rparr>)"
  using assms by (simp add: handle_ldi_def ram_read_peek list_set_def)

text \<open>PRN of an integer that \<^verbatim>\<open>str\<close> refuses raises ValueError, after the operand was read.\<close>

lemma handle_prn_ValueError:
  assumes "peek (pc s + 1) s = Some k" and "reg_peek k s = Some (IntV i)"
    and "\<not> int_str_ok fs i"
  shows "handle_prn fs s = Inl (ValueError, s\<lparr>mar := pc s + 1, mdr := Some k\<rparr>)"
  using assms
  by (auto simp: handle_prn_def ram_read_peek reg_peek_def split: sum.splits)

lemma call_handler_InrD:
  assumes "call_handler fs h t = Inr t'"
  shows "h \<noteq> Handle_hlt \<and> pc t' = pc t"
  using assms
  by (cases h)
     (auto simp: handle_hlt_def handle_ldi_def handle_prn_def handle_push_def handle_pop_def
           ram_read_peek ram_write_index Let_def split: sum.splits option.splits if_splits)

lemma alu_InrD:
  assumes "alu fs i a b t = Inr t'"
  shows "i \<in> {ADD, SUB, MUL, DIV} \<and> pc t' = pc t \<and> ram t' = ram t \<and> sp t' = sp t \<and> out t' = out t"
  using assms
  by (auto simp: alu_def reg_aug_assign_def split: sum.splits if_splits)

lemma dispatch_InrD:
  assumes "dispatch fs i a b t = Inr t'"
  shows "i \<in> {LDI, PRN, PUSH, POP, ADD, SUB, MUL, DIV} \<and> pc t' = pc t"
proof (cases "drop_bit 5 i AND 1 = 0")
  case False
  with assms show ?thesis by (auto simp: dispatch_def dest!: alu_InrD)
next
  case True
  with assms obtain u h where "trace t = Inr u" "branchtable i = Some h" "call_handler fs h u = Inr t'"
    by (auto simp: dispatch_def split: sum.splits option.splits)
  then show ?thesis
    by (auto dest!: trace_InrD branchtable_SomeD call_handler_InrD)
qed

subsection \<open>One pass of the loop\<close>

lemma step_unfold:
  assumes "peek (pc s) s = Some (IntV i)"
    and "peek (pc s + 1) s = Some a" and "peek (pc s + 2) s = Some b"
  shows "step fs s =
     (case dispatch fs i a b (s\<lparr>ir := Some (IntV i), mar := pc s + 2, mdr := Some b\<rparr>) of
        Inl r \<Rightarrow> Inl r
      | Inr t \<Rightarrow> Inr (t\<lparr>pc := pc t + (drop_bit 6 i + 1)\<rparr>))"
  using assms by (simp add: step_def ram_read_peek Let_def)

lemma step_InrD:
  assumes "step fs s = Inr s'"
  shows "\<exists>i a b t. peek (pc s) s = Some (IntV i) \<and> peek (pc s + 1) s = Some a
           \<and> peek (pc s + 2) s = Some b
           \<and> dispatch fs i a b (s\<lparr>ir := Some (IntV i), mar := pc s + 2, mdr := Some b\<rparr>) = Inr t
           \<and> s' = t\<lparr>pc := pc t + (drop_bit 6 i + 1)\<rparr>"
  using assms
  by (auto simp: step_def ram_read_peek Let_def split: option.splits val.splits sum.splits)

lemma step_pc_bounds:
  assumes "step fs s = Inr s'"
  shows "- int (length (ram s)) \<le> pc s \<and> pc s + 2 < int (length (ram s))"
  using step_InrD [OF assms] by (auto dest!: peek_SomeD)

lemma step_nonalu:
  assumes "peek (pc s) s = Some (IntV i)" and "drop_bit 5 i AND 1 = 0"
  shows "step fs s =
     (case peek (pc s + 1) s of
        None \<Rightarrow> Inl (IndexError, s\<lparr>ir := Some (IntV i), mar := pc s + 1, mdr := Some (IntV i)\<rparr>)
      | Some b1 \<Rightarrow>
     (case peek (pc s + 2) s of
        None \<Rightarrow> Inl (IndexError, s\<lparr>ir := Some (IntV i), mar := pc s + 2, mdr := Some b1\<rparr>)
      | Some b2 \<Rightarrow>
     (let u = s\<lparr>ir := Some (IntV i), mar := pc s + 2, mdr := Some b2\<rparr> in
      if \<not> (is_int b1 \<and> is_int b2) then Inl (TypeError, u)
      else (case trace_regs (reg s) [0..<8] of
              Some e \<Rightarrow> Inl (e, u)
            | None \<Rightarrow>
           (case branchtable i of
              None \<Rightarrow> Inl (KeyError, u)
            | Some h \<Rightarrow>
           (case call_handler fs h u of
              Inl r \<Rightarrow> Inl r
            | Inr t \<Rightarrow> Inr (t\<lparr>pc := pc t + (drop_bit 6 i + 1)\<rparr>)))))))"
proof (cases "peek (pc s + 1) s")
  case None
  with assms show ?thesis by (simp add: step_def ram_read_peek Let_def)
next
  case b1: (Some b1)
  show ?thesis
  proof (cases "peek (pc s + 2) s")
    case None
    with assms b1 show ?thesis by (simp add: step_def ram_read_peek Let_def)
  next
    case b2: (Some b2)
    let ?u = "s\<lparr>ir := Some (IntV i), mar := pc s + 2, mdr := Some b2\<rparr>"
    have tr: "trace ?u =
      (if \<not> (is_int b1 \<and> is_int b2) then Inl (TypeError, ?u)
       else (case trace_regs (reg s) [0..<8] of Some e \<Rightarrow> Inl (e, ?u) | None \<Rightarrow> Inr ?u))"
      using assms b1 b2 trace_unfold [of ?u "IntV i" b1 b2] by (simp split: option.split)
    show ?thesis
      unfolding step_unfold [OF assms(1) b1 b2]
      using assms(2) b1 b2
      by (simp add: dispatch_def tr Let_def split: option.splits sum.splits)
  qed
qed

lemma step_alu:
  assumes "peek (pc s) s = Some (IntV i)" and "drop_bit 5 i AND 1 \<noteq> 0"
    and "peek (pc s + 1) s = Some a" and "peek (pc s + 2) s = Some b"
  shows "step fs s =
     (case alu fs i a b (s\<lparr>ir := Some (IntV i), mar := pc s + 2, mdr := Some b\<rparr>) of
        Inl r \<Rightarrow> Inl r
      | Inr t \<Rightarrow> Inr (t\<lparr>pc := pc t + (drop_bit 6 i + 1)\<rparr>))"
  unfolding step_unfold [OF assms(1,3,4)] using assms(2) by (simp add: dispatch_def)

lemma step_nonalu_fault:
  assumes f: "peek (pc s) s = Some (IntV i)" and b: "drop_bit 5 i AND 1 = 0"
    and h: "branchtable i = None \<and> x = KeyError \<or> branchtable i = Some Handle_hlt \<and> x = SystemExit"
  shows "\<exists>e s'. step fs s = Inl (e, s')
        \<and> pc s' = pc s \<and> ram s' = ram s \<and> reg s' = reg s \<and> sp s' = sp s \<and> out s' = out s
        \<and> (e = x \<or> e \<noteq> SystemExit \<and> \<not> reaches_table s) \<and> (reaches_table s \<longrightarrow> e = x)"
  unfolding step_nonalu [OF f b]
  using h
  by (auto simp: Let_def handle_hlt_def reaches_table_def split: option.splits
           dest: trace_regs_not_exit)

lemma step_PUSH:
  assumes f: "peek (pc s) s = Some (IntV PUSH)" and st: "step fs s = Inr s1"
  shows "\<exists>v c. named_reg s = Some v \<and> py_index (length (ram s)) (sp s - 1) = Some c
           \<and> ram s1 = (ram s)[c := v] \<and> reg s1 = reg s \<and> sp s1 = sp s - 1
           \<and> pc s1 = pc s + 2 \<and> out s1 = out s"
proof -
  from step_InrD [OF st] f obtain a b t where
    a: "peek (pc s + 1) s = Some a" and b: "peek (pc s + 2) s = Some b"
    and d: "dispatch fs PUSH a b (s\<lparr>ir := Some (IntV PUSH), mar := pc s + 2, mdr := Some b\<rparr>) = Inr t"
    and s1: "s1 = t\<lparr>pc := pc t + (drop_bit 6 PUSH + 1)\<rparr>"
    by auto
  let ?u = "s\<lparr>ir := Some (IntV PUSH), mar := pc s + 2, mdr := Some b\<rparr>"
  from d obtain u' where tr: "trace ?u = Inr u'" and h: "handle_push u' = Inr t"
    by (auto simp: dispatch_def split: sum.splits)
  from trace_InrD [OF tr] have u': "u' = ?u" using b by auto
  from handle_push_InrD [OF h] u' a obtain v c where
    "reg_peek a s = Some v" "py_index (length (ram s)) (sp s - 1) = Some c"
    "t = ?u\<lparr>sp := sp s - 1, mar := sp s - 1, mdr := Some v, ram := (ram s)[c := v]\<rparr>"
    by auto
  moreover have "drop_bit 6 PUSH = (1::int)"
    by (simp add: PUSH_def drop_bit_eq_div)
  ultimately show ?thesis
    using a s1 by (auto simp: named_reg_def)
qed

lemma step_POP:
  assumes f: "peek (pc s) s = Some (IntV POP)" and st: "step fs s = Inr s1"
  shows "\<exists>v c. peek (sp s) s = Some v \<and> named_reg (s1\<lparr>pc := pc s\<rparr>) = Some v
           \<and> ram s1 = ram s \<and> sp s1 = sp s + 1 \<and> pc s1 = pc s + 2 \<and> out s1 = out s"
proof -
  from step_InrD [OF st] f obtain a b t where
    a: "peek (pc s + 1) s = Some a" and b: "peek (pc s + 2) s = Some b"
    and d: "dispatch fs POP a b (s\<lparr>ir := Some (IntV POP), mar := pc s + 2, mdr := Some b\<rparr>) = Inr t"
    and s1: "s1 = t\<lparr>pc := pc t + (drop_bit 6 POP + 1)\<rparr>"
    by auto
  let ?u = "s\<lparr>ir := Some (IntV POP), mar := pc s + 2, mdr := Some b\<rparr>"
  from d obtain u' where tr: "trace ?u = Inr u'" and h: "handle_pop u' = Inr t"
    by (auto simp: dispatch_def split: sum.splits)
  from trace_InrD [OF tr] have u': "u' = ?u" using b by auto
  from handle_pop_InrD [OF h] u' a obtain v k j where
    v: "peek (sp s) s = Some v" and k: "a = IntV k"
    and j: "py_index (length (reg s)) k = Some j"
    and t: "t = ?u\<lparr>mar := pc s + 1, mdr := Some (IntV k), reg := (reg s)[j := v], sp := sp s + 1\<rparr>"
    by auto
  have "drop_bit 6 POP = (1::int)"
    by (simp add: POP_def drop_bit_eq_div)
  moreover have "j < length (reg s)"
    using py_index_SomeD [OF j] by simp
  ultimately show ?thesis
    using a v k j t s1 by (auto simp: named_reg_def reg_peek_def list_get_def)
qed

lemma run_Inl: "step fs s = Inl r \<Longrightarrow> run fs s = r"
  by (subst run.simps) simp

subsection \<open>The programs of the specification\<close>

text \<open>
  \<^verbatim>\<open>LDI R0,8; LDI R1,9; MUL R0,R1; PRN R0; HLT\<close> prints 72 and exits;
  \<^verbatim>\<open>LDI R0,5; PUSH R0; LDI R0,0; POP R0; PRN R0; HLT\<close> prints 5 and exits.
\<close>

lemma scenario_mul:
  "run opaque_floats (boot [LDI, 0, 8, LDI, 1, 9, MUL, 0, 1, PRN, 0, HLT])
     = (SystemExit,
        (boot [LDI, 0, 8, LDI, 1, 9, MUL, 0, 1, PRN, 0, HLT])
          \<lparr>reg := (reg (boot []))[0 := IntV 72, 1 := IntV 9], pc := 11,
            ir := Some (IntV HLT), mar := 13, mdr := Some (IntV 0), out := [IntV 72]\<rparr>)"
  by code_simp

lemma scenario_stack:
  "run opaque_floats (boot [LDI, 0, 5, PUSH, 0, LDI, 0, 0, POP, 0, PRN, 0, HLT])
     = (SystemExit,
        (boot [LDI, 0, 5, PUSH, 0, LDI, 0, 0, POP, 0, PRN, 0, HLT])
          \<lparr>ram := (ram (boot [LDI, 0, 5, PUSH, 0, LDI, 0, 0, POP, 0, PRN, 0, HLT]))[242 := IntV 5],
            reg := (reg (boot []))[0 := IntV 5], pc := 12,
            ir := Some (IntV HLT), mar := 14, mdr := Some (IntV 0), out := [IntV 5]\<rparr>)"
  by code_simp

subsection \<open>Stack discipline\<close>

lemma push_then_pop:
  assumes pu: "handle_push s = Inr t1" and po: "handle_pop (t1\<lparr>pc := p\<rparr>) = Inr t2"
  shows "sp t2 = sp s \<and> named_reg s \<noteq> None \<and> named_reg (t2\<lparr>pc := p\<rparr>) = named_reg s"
proof -
  from handle_push_InrD [OF pu] obtain k v c where
    k: "peek (pc s + 1) s = Some k" and v: "reg_peek k s = Some v"
    and c: "py_index (length (ram s)) (sp s - 1) = Some c"
    and t1: "t1 = s\<lparr>sp := sp s - 1, mar := sp s - 1, mdr := Some v, ram := (ram s)[c := v]\<rparr>"
    by blast
  have nr: "named_reg s = Some v" using k v by (simp add: named_reg_def)
  have cL: "c < length (ram s)" using py_index_SomeD [OF c] by simp
  have top: "peek (sp s - 1) (t1\<lparr>pc := p\<rparr>) = Some v"
    using c cL by (simp add: t1 peek_def)
  from handle_pop_InrD [OF po] obtain v' k' j where
    v': "peek (sp (t1\<lparr>pc := p\<rparr>)) (t1\<lparr>pc := p\<rparr>) = Some v'"
    and k': "peek (pc (t1\<lparr>pc := p\<rparr>) + 1) (t1\<lparr>pc := p\<rparr>) = Some (IntV k')"
    and j: "py_index (length (reg (t1\<lparr>pc := p\<rparr>))) k' = Some j"
    and t2: "t2 = (t1\<lparr>pc := p\<rparr>)\<lparr>mar := pc (t1\<lparr>pc := p\<rparr>) + 1, mdr := Some (IntV k'),
                 reg := (reg (t1\<lparr>pc := p\<rparr>))[j := v'], sp := sp (t1\<lparr>pc := p\<rparr>) + 1\<rparr>"
    by blast
  have "v' = v" using v' top by (simp add: t1)
  have jL: "j < length (reg s)" using py_index_SomeD [OF j] by (simp add: t1)
  have sp2: "sp t2 = sp s" by (simp add: t2 t1)
  have pk: "peek (p + 1) (t2\<lparr>pc := p\<rparr>) = Some (IntV k')"
    using k' by (simp add: t2)
  have "reg_peek (IntV k') (t2\<lparr>pc := p\<rparr>) = Some v"
    using j jL \<open>v' = v\<close> by (simp add: t2 t1 reg_peek_def list_get_def)
  then have "named_reg (t2\<lparr>pc := p\<rparr>) = Some v"
    using pk by (simp add: named_reg_def)
  then show ?thesis using sp2 nr by simp
qed

lemma push_cycles_SucD:
  assumes "push_cycles fs (Suc n) s = Some (vs, s2)"
  shows "\<exists>v s1 vs'. peek (pc s) s = Some (IntV PUSH) \<and> named_reg s = Some v
           \<and> step fs s = Inr s1 \<and> push_cycles fs n s1 = Some (vs', s2) \<and> vs = v # vs'"
  using assms by (auto split: if_splits option.splits sum.splits)

lemma pop_cycles_SucD:
  assumes "pop_cycles fs (Suc n) s = Some (ws, s2)"
  shows "\<exists>w s1 ws'. peek (pc s) s = Some (IntV POP) \<and> step fs s = Inr s1
           \<and> named_reg (s1\<lparr>pc := pc s\<rparr>) = Some w
           \<and> pop_cycles fs n s1 = Some (ws', s2) \<and> ws = w # ws'"
  using assms by (auto split: if_splits option.splits sum.splits)

text \<open>
  After \<open>n\<close> PUSH cycles SP has gone down by \<open>n\<close>, only the cells below the old SP have
  changed, and, as long as the pushes have not lapped the memory, cell \<open>SP - 1 - k\<close> holds the
  \<open>k\<close>-th pushed value. The program counter bounds say that they cannot lap it: every
  cycle needs its three bytes inside the memory.
\<close>

lemma push_cycles_spec:
  "push_cycles fs n s = Some (vs, s2) \<Longrightarrow>
     length vs = n \<and> sp s2 = sp s - int n \<and> length (ram s2) = length (ram s)
     \<and> (0 < n \<longrightarrow> - int (length (ram s)) \<le> pc s \<and> pc s + 2 * int n < int (length (ram s)))
     \<and> (\<forall>c. (\<forall>k<n. py_index (length (ram s)) (sp s - 1 - int k) \<noteq> Some c)
              \<longrightarrow> ram s2 ! c = ram s ! c)
     \<and> (n \<le> length (ram s) \<longrightarrow>
          (\<forall>k<n. \<exists>c. py_index (length (ram s)) (sp s - 1 - int k) = Some c \<and> ram s2 ! c = vs ! k))"
proof (induction n arbitrary: s vs)
  case 0
  then show ?case by simp
next
  case (Suc n)
  let ?L = "length (ram s)"
  from push_cycles_SucD [OF Suc.prems] obtain v s1 vs' where
    f: "peek (pc s) s = Some (IntV PUSH)" and nr: "named_reg s = Some v"
    and st: "step fs s = Inr s1" and rest: "push_cycles fs n s1 = Some (vs', s2)"
    and vs: "vs = v # vs'"
    by blast
  from step_PUSH [OF f st] nr obtain c0 where
    c0: "py_index ?L (sp s - 1) = Some c0"
    and ram1: "ram s1 = (ram s)[c0 := v]" and sp1: "sp s1 = sp s - 1" and pc1: "pc s1 = pc s + 2"
    by auto
  have len1: "length (ram s1) = ?L" using ram1 by simp
  have c0L: "c0 < ?L" using py_index_SomeD [OF c0] by simp
  note ih = Suc.IH [OF rest, unfolded len1 sp1 pc1]
  have idx: "\<And>k. sp s - 1 - 1 - int k = sp s - 1 - int (Suc k)" by simp
  have A: "length vs = Suc n" using ih vs by simp
  have B: "sp s2 = sp s - int (Suc n)" using ih by simp
  have C: "length (ram s2) = ?L" using ih by simp
  have D: "- int ?L \<le> pc s \<and> pc s + 2 * int (Suc n) < int ?L"
  proof (cases "n = 0")
    case True
    then show ?thesis using step_pc_bounds [OF st] by simp
  next
    case False
    then show ?thesis using step_pc_bounds [OF st] ih by simp
  qed
  have E: "ram s2 ! c = ram s ! c"
    if h: "\<forall>k<Suc n. py_index ?L (sp s - 1 - int k) \<noteq> Some c" for c
  proof -
    from h have "py_index ?L (sp s - 1 - int 0) \<noteq> Some c" by blast
    then have ne: "c \<noteq> c0" using c0 by auto
    have "\<forall>k<n. py_index ?L (sp s - 1 - 1 - int k) \<noteq> Some c"
      using h unfolding idx by auto
    then have "ram s2 ! c = ram s1 ! c" using ih by blast
    then show ?thesis using ram1 ne by simp
  qed
  have F: "\<exists>c. py_index ?L (sp s - 1 - int k) = Some c \<and> ram s2 ! c = vs ! k"
    if le: "Suc n \<le> ?L" and k: "k < Suc n" for k
  proof (cases k)
    case 0
    have "\<forall>j<n. py_index ?L (sp s - 1 - 1 - int j) \<noteq> Some c0"
    proof (intro allI impI notI)
      fix j assume j: "j < n" and e: "py_index ?L (sp s - 1 - 1 - int j) = Some c0"
      have "\<bar>(sp s - 1 - 1 - int j) - (sp s - 1)\<bar> < int ?L" using j le by simp
      from py_index_inj [OF e c0 this] show False by simp
    qed
    then have "ram s2 ! c0 = ram s1 ! c0" using ih by blast
    then have "ram s2 ! c0 = v" using ram1 c0L by simp
    then show ?thesis using 0 c0 vs by simp
  next
    case (Suc k')
    then have "k' < n" using k by simp
    moreover have "n \<le> ?L" using le by simp
    ultimately obtain c where "py_index ?L (sp s - 1 - 1 - int k') = Some c"
      and "ram s2 ! c = vs' ! k'"
      using ih by blast
    then show ?thesis using Suc vs unfolding idx by auto
  qed
  show ?case using A B C D E F by blast
qed

lemma pop_cycles_spec:
  "pop_cycles fs n s = Some (ws, s2) \<Longrightarrow>
     length ws = n \<and> sp s2 = sp s + int n \<and> ram s2 = ram s
     \<and> (\<forall>k<n. peek (sp s + int k) s = Some (ws ! k))"
proof (induction n arbitrary: s ws)
  case 0
  then show ?case by simp
next
  case (Suc n)
  from pop_cycles_SucD [OF Suc.prems] obtain w s1 ws' where
    f: "peek (pc s) s = Some (IntV POP)" and st: "step fs s = Inr s1"
    and nr: "named_reg (s1\<lparr>pc := pc s\<rparr>) = Some w"
    and rest: "pop_cycles fs n s1 = Some (ws', s2)" and ws: "ws = w # ws'"
    by blast
  from step_POP [OF f st] nr have
    top: "peek (sp s) s = Some w" and ram1: "ram s1 = ram s" and sp1: "sp s1 = sp s + 1"
    by auto
  note ih = Suc.IH [OF rest, unfolded sp1 ram1]
  have pk: "\<And>a. peek a s1 = peek a s" using peek_ram_cong [OF ram1] .
  have "peek (sp s + int k) s = Some (ws ! k)" if k: "k < Suc n" for k
  proof (cases k)
    case 0
    then show ?thesis using top ws by simp
  next
    case (Suc k')
    then have "k' < n" using k by simp
    then have "peek (sp s + 1 + int k') s1 = Some (ws' ! k')" using ih by blast
    then show ?thesis using Suc ws pk by (simp add: add.assoc)
  qed
  then show ?case using ih ws by simp
qed

lemma push_pop_cycles:
  assumes pu: "push_cycles fs n s = Some (vs, s1)"
    and po: "pop_cycles fs n s1 = Some (ws, s2)"
  shows "sp s2 = sp s \<and> ws = rev vs"
proof -
  let ?L = "length (ram s)"
  note P = push_cycles_spec [OF pu]
  note Q = pop_cycles_spec [OF po]
  have sp: "sp s2 = sp s" using P Q by simp
  have nL: "n \<le> ?L"
  proof (cases "n = 0")
    case True
    then show ?thesis by simp
  next
    case False
    then have "- int ?L \<le> pc s \<and> pc s + 2 * int n < int ?L" using P by simp
    then show ?thesis by linarith
  qed
  have len: "length ws = length (rev vs)" using P Q by simp
  have "ws ! k = rev vs ! k" if k: "k < length ws" for k
  proof -
    have kn: "k < n" using k Q by simp
    let ?k' = "n - Suc k"
    have k': "?k' < n" using kn by simp
    from P nL k' obtain c where c: "py_index ?L (sp s - 1 - int ?k') = Some c"
      and v: "ram s1 ! c = vs ! ?k'"
      by blast
    have addr: "sp s1 + int k = sp s - 1 - int ?k'"
      using P kn by (simp add: of_nat_diff)
    have "peek (sp s1 + int k) s1 = Some (ws ! k)" using Q kn by blast
    moreover have "peek (sp s1 + int k) s1 = Some (ram s1 ! c)"
      using c P unfolding addr by (simp add: peek_def)
    ultimately have "ws ! k = vs ! ?k'" using v by simp
    moreover have "rev vs ! k = vs ! ?k'"
      using kn P by (simp add: rev_nth)
    ultimately show ?thesis by simp
  qed
  with len have "ws = rev vs" by (rule nth_equalityI)
  with sp show ?thesis by simp
qed

subsection \<open>Division by a zero\<close>

lemma py_truediv_zero:
  assumes "py_is_zero fs w"
  shows "py_truediv fs v w =
           (if \<not> is_int w \<and> to_float fs v = Inl OverflowError then Inl OverflowError
            else Inl ZeroDivisionError)"
proof (cases v)
  case (IntV x)
  show ?thesis
  proof (cases w)
    case (IntV y)
    with assms \<open>v = IntV x\<close> show ?thesis by simp
  next
    case (FloatV g)
    with assms \<open>v = IntV x\<close> show ?thesis
      by (simp add: float_binop_def to_float_def split: option.splits)
  qed
next
  case (FloatV x)
  show ?thesis
  proof (cases w)
    case (IntV y)
    with assms \<open>v = FloatV x\<close> show ?thesis by simp
  next
    case (FloatV g)
    with assms \<open>v = FloatV x\<close> show ?thesis
      by (simp add: float_binop_def to_float_def)
  qed
qed

section \<open>The claims\<close>

subsection \<open>C1: program counter advancement\<close>

text \<open>
  Claim C1. Whenever one fetch-decode-execute cycle runs to its end (the instruction is
  not HLT and raises nothing), the instruction at PC is an integer byte \<open>i\<close> other than
  HLT, its operand count \<open>i >> 6\<close> (the value of the two most significant bits of the
  byte) is 0, 1 or 2, and the program counter after the cycle is the program counter
  before it plus 1 plus that operand count. This holds for ALU instructions and
  branch-table instructions alike.
\<close>

theorem pc_advance:
  assumes "step fs s = Inr s'"
  shows "\<exists>i. peek (pc s) s = Some (IntV i) \<and> i \<noteq> HLT \<and> 0 \<le> i \<and> i < 256
           \<and> drop_bit 6 i \<in> {0, 1, 2}
           \<and> pc s' = pc s + 1 + drop_bit 6 i"
proof -
  from step_InrD [OF assms] obtain i a b t where
    i: "peek (pc s) s = Some (IntV i)"
    and d: "dispatch fs i a b (s\<lparr>ir := Some (IntV i), mar := pc s + 2, mdr := Some b\<rparr>) = Inr t"
    and s': "s' = t\<lparr>pc := pc t + (drop_bit 6 i + 1)\<rparr>"
    by blast
  from dispatch_InrD [OF d] have op: "i \<in> {LDI, PRN, PUSH, POP, ADD, SUB, MUL, DIV}"
    and pct: "pc t = pc s" by simp_all
  from op have "i \<noteq> HLT \<and> 0 \<le> i \<and> i < 256" by (auto simp: opcode_defs)
  moreover from op have "drop_bit 6 i \<in> {0, 1, 2}" by (auto simp: operand_count)
  ultimately show ?thesis using i s' pct by simp
qed

theorem pc_advance_witness:
  "step opaque_floats (boot [LDI, 0, 8]) =
     Inr ((boot [LDI, 0, 8])\<lparr>reg := (reg (boot [LDI, 0, 8]))[0 := IntV 8], pc := 3,
            ir := Some (IntV LDI), mar := 2, mdr := Some (IntV 8)\<rparr>)
   \<and> peek 0 (boot [LDI, 0, 8]) = Some (IntV LDI) \<and> drop_bit 6 LDI = 2
   \<and> pc ((boot [LDI, 0, 8])\<lparr>reg := (reg (boot [LDI, 0, 8]))[0 := IntV 8], pc := 3,
            ir := Some (IntV LDI), mar := 2, mdr := Some (IntV 8)\<rparr>) = pc (boot [LDI, 0, 8]) + 1 + 2"
proof -
  let ?s = "boot [LDI, 0, 8]"
  let ?t = "?s\<lparr>reg := (reg ?s)[0 := IntV 8], pc := 3, ir := Some (IntV LDI), mar := 2,
              mdr := Some (IntV 8)\<rparr>"
  have h: "step opaque_floats ?s = Inr ?t" by code_simp
  have p: "peek (pc ?s) ?s = Some (IntV LDI)" by code_simp
  from pc_advance [OF h] p have "pc ?t = pc ?s + 1 + drop_bit 6 LDI" by auto
  moreover have "pc ?s = 0" by code_simp
  ultimately show ?thesis using h p by (simp add: operand_count)
qed

subsection \<open>C2: ADD, SUB, MUL\<close>

text \<open>
  Claim C2, as amended. For register operands \<open>a\<close> and \<open>b\<close> (Python indices into the
  register list) whose registers hold the integers \<open>x\<close> and \<open>y\<close>, ADD, SUB and MUL
  store \<open>x + y\<close>, \<open>x - y\<close> and \<open>x * y\<close> in register \<open>a\<close> and change nothing
  else: every other register keeps its value, and so does register \<open>b\<close> whenever it is
  not the same register as \<open>a\<close>.
\<close>

theorem alu_arith:
  assumes a: "py_index (length (reg s)) a = Some ja"
    and b: "py_index (length (reg s)) b = Some jb"
    and x: "reg s ! ja = IntV x" and y: "reg s ! jb = IntV y"
  shows "alu fs ADD (IntV a) (IntV b) s = Inr (s\<lparr>reg := (reg s)[ja := IntV (x + y)]\<rparr>)
     \<and> alu fs SUB (IntV a) (IntV b) s = Inr (s\<lparr>reg := (reg s)[ja := IntV (x - y)]\<rparr>)
     \<and> alu fs MUL (IntV a) (IntV b) s = Inr (s\<lparr>reg := (reg s)[ja := IntV (x * y)]\<rparr>)
     \<and> (\<forall>r. (reg s)[ja := r] ! ja = r)
     \<and> (\<forall>r k. k \<noteq> ja \<longrightarrow> (reg s)[ja := r] ! k = reg s ! k)
     \<and> (\<forall>r. jb \<noteq> ja \<longrightarrow> (reg s)[ja := r] ! jb = IntV y)"
proof -
  have "ja < length (reg s)" using py_index_SomeD [OF a] by simp
  then show ?thesis
    using assms by (simp add: alu_def reg_aug_assign_def list_get_def list_set_def opcode_defs)
qed

theorem alu_arith_witness:
  "py_index (length (reg (init_cpu :: unit cpu))) 0 = Some 0
   \<and> py_index (length (reg (init_cpu :: unit cpu))) 7 = Some 7
   \<and> reg (init_cpu :: unit cpu) ! 0 = IntV 0 \<and> reg (init_cpu :: unit cpu) ! 7 = IntV 243
   \<and> alu opaque_floats ADD (IntV 0) (IntV 7) init_cpu
       = Inr (init_cpu\<lparr>reg := (reg init_cpu)[0 := IntV (0 + 243)]\<rparr>)
   \<and> alu opaque_floats SUB (IntV 0) (IntV 7) init_cpu
       = Inr (init_cpu\<lparr>reg := (reg init_cpu)[0 := IntV (0 - 243)]\<rparr>)
   \<and> alu opaque_floats MUL (IntV 0) (IntV 7) init_cpu
       = Inr (init_cpu\<lparr>reg := (reg init_cpu)[0 := IntV (0 * 243)]\<rparr>)
   \<and> (reg (init_cpu :: unit cpu))[0 := IntV 243] ! 7 = IntV 243"
proof -
  let ?s = "init_cpu :: unit cpu"
  have a: "py_index (length (reg ?s)) 0 = Some 0" by code_simp
  have b: "py_index (length (reg ?s)) 7 = Some 7" by code_simp
  have x: "reg ?s ! 0 = IntV 0" by code_simp
  have y: "reg ?s ! 7 = IntV 243" by code_simp
  show ?thesis
    using a b x y alu_arith [OF a b x y, of opaque_floats] by simp
qed

text \<open>
  Claim C2 as stated fails when both operands name the same register: \<^verbatim>\<open>ADD R7,R7\<close> on
  the freshly constructed CPU turns register 7, which is register \<open>b\<close>, from 243 into 486.
\<close>

theorem alu_add_same_register_counterexample:
  "alu opaque_floats ADD (IntV 7) (IntV 7) init_cpu
     = Inr (init_cpu\<lparr>reg := (reg init_cpu)[7 := IntV 486]\<rparr>)
   \<and> reg (init_cpu :: unit cpu) ! 7 = IntV 243
   \<and> (reg (init_cpu :: unit cpu))[7 := IntV 486] ! 7 \<noteq> reg (init_cpu :: unit cpu) ! 7"
  by code_simp

subsection \<open>C3: PUSH and POP\<close>

text \<open>
  Claim C3. If \<^verbatim>\<open>handle_push\<close> succeeds and \<^verbatim>\<open>handle_pop\<close> (at any later PC) succeeds
  after it, then SP is back at its value before the push and the register named by the
  pop holds the value of the register named by the push. More generally, if \<open>n\<close>
  consecutive PUSH cycles of the run loop are followed by \<open>n\<close> consecutive POP cycles,
  then SP is back at its original value and the values the pops deliver are the pushed
  values in reverse order.
\<close>

theorem push_pop_lifo:
  "(handle_push s = Inr t1 \<and> handle_pop (t1\<lparr>pc := p\<rparr>) = Inr t2 \<longrightarrow>
      sp t2 = sp s \<and> named_reg s \<noteq> None \<and> named_reg (t2\<lparr>pc := p\<rparr>) = named_reg s)
   \<and> (push_cycles fs n s = Some (vs, s1) \<and> pop_cycles fs n s1 = Some (ws, s2) \<longrightarrow>
      sp s2 = sp s \<and> ws = rev vs)"
  using push_then_pop [of s t1 p t2] push_pop_cycles [of fs n s vs s1 ws s2] by blast

theorem push_pop_lifo_witness:
  "handle_push (boot [PUSH, 7, PUSH, 0, POP, 1, POP, 2])
     = Inr ((boot [PUSH, 7, PUSH, 0, POP, 1, POP, 2])
              \<lparr>ram := (ram (boot [PUSH, 7, PUSH, 0, POP, 1, POP, 2]))[242 := IntV 243],
                mar := 242, mdr := Some (IntV 243), sp := 242\<rparr>)
   \<and> handle_pop ((boot [PUSH, 7, PUSH, 0, POP, 1, POP, 2])
              \<lparr>ram := (ram (boot [PUSH, 7, PUSH, 0, POP, 1, POP, 2]))[242 := IntV 243],
                mar := 242, mdr := Some (IntV 243), sp := 242, pc := 4\<rparr>)
     = Inr ((boot [PUSH, 7, PUSH, 0, POP, 1, POP, 2])
              \<lparr>ram := (ram (boot [PUSH, 7, PUSH, 0, POP, 1, POP, 2]))[242 := IntV 243],
                reg := (reg (boot [PUSH, 7, PUSH, 0, POP, 1, POP, 2]))[1 := IntV 243],
                mar := 5, mdr := Some (IntV 1), sp := 243, pc := 4\<rparr>)
   \<and> push_cycles opaque_floats 2 (boot [PUSH, 7, PUSH, 0, POP, 1, POP, 2])
     = Some ([IntV 243, IntV 0],
             (boot [PUSH, 7, PUSH, 0, POP, 1, POP, 2])
               \<lparr>ram := (ram (boot [PUSH, 7, PUSH, 0, POP, 1, POP, 2]))[242 := IntV 243, 241 := IntV 0],
                 pc := 4, ir := Some (IntV PUSH), mar := 241, mdr := Some (IntV 0), sp := 241\<rparr>)
   \<and> pop_cycles opaque_floats 2
        ((boot [PUSH, 7, PUSH, 0, POP, 1, POP, 2])
               \<lparr>ram := (ram (boot [PUSH, 7, PUSH, 0, POP, 1, POP, 2]))[242 := IntV 243, 241 := IntV 0],
                 pc := 4, ir := Some (IntV PUSH), mar := 241, mdr := Some (IntV 0), sp := 241\<rparr>)
     = Some ([IntV 0, IntV 243],
             (boot [PUSH, 7, PUSH, 0, POP, 1, POP, 2])
               \<lparr>ram := (ram (boot [PUSH, 7, PUSH, 0, POP, 1, POP, 2]))[242 := IntV 243, 241 := IntV 0],
                 reg := (reg (boot [PUSH, 7, PUSH, 0, POP, 1, POP, 2]))[1 := IntV 0, 2 := IntV 243],
                 pc := 8, ir := Some (IntV POP), mar := 7, mdr := Some (IntV 2), sp := 243\<rparr>)
   \<and> sp (boot [PUSH, 7, PUSH, 0, POP, 1, POP, 2]) = 243
   \<and> named_reg (boot [PUSH, 7, PUSH, 0, POP, 1, POP, 2]) = Some (IntV 243)
   \<and> [IntV 0, IntV 243] = rev [IntV 243, IntV 0 :: unit val]"
proof -
  let ?s = "boot [PUSH, 7, PUSH, 0, POP, 1, POP, 2]"
  let ?t1 = "?s\<lparr>ram := (ram ?s)[242 := IntV 243], mar := 242, mdr := Some (IntV 243), sp := 242\<rparr>"
  let ?t2 = "?s\<lparr>ram := (ram ?s)[242 := IntV 243], reg := (reg ?s)[1 := IntV 243],
                 mar := 5, mdr := Some (IntV 1), sp := 243, pc := 4\<rparr>"
  let ?s1 = "?s\<lparr>ram := (ram ?s)[242 := IntV 243, 241 := IntV 0],
                 pc := 4, ir := Some (IntV PUSH), mar := 241, mdr := Some (IntV 0), sp := 241\<rparr>"
  let ?s2 = "?s\<lparr>ram := (ram ?s)[242 := IntV 243, 241 := IntV 0],
                 reg := (reg ?s)[1 := IntV 0, 2 := IntV 243],
                 pc := 8, ir := Some (IntV POP), mar := 7, mdr := Some (IntV 2), sp := 243\<rparr>"
  have hp: "handle_push ?s = Inr ?t1" by code_simp
  have hq: "handle_pop (?t1\<lparr>pc := 4\<rparr>) = Inr ?t2" by code_simp
  have pu: "push_cycles opaque_floats 2 ?s = Some ([IntV 243, IntV 0], ?s1)" by code_simp
  have po: "pop_cycles opaque_floats 2 ?s1 = Some ([IntV 0, IntV 243], ?s2)" by code_simp
  have nr: "named_reg ?s = Some (IntV 243)" by code_simp
  have sp0: "sp ?s = 243" by code_simp
  from push_pop_lifo [of ?s ?t1 4 ?t2 opaque_floats 2 "[IntV 243, IntV 0]" ?s1 "[IntV 0, IntV 243]" ?s2]
    hp hq pu po
  have "sp ?t2 = sp ?s \<and> named_reg (?t2\<lparr>pc := 4\<rparr>) = named_reg ?s
        \<and> sp ?s2 = sp ?s \<and> [IntV 0, IntV 243] = rev [IntV 243, IntV 0 :: unit val]"
    by blast
  then show ?thesis using hp hq pu po nr sp0 by simp
qed

subsection \<open>C4: LDI\<close>

text \<open>
  Claim C4. With a register index \<open>i\<close> between 0 and 7 at PC+1 and a value \<open>v\<close> at
  PC+2, \<^verbatim>\<open>handle_ldi\<close> sets register \<open>i\<close> to \<open>v\<close> and changes no other of the eight
  registers and no memory cell (only MAR and MDR record the last read). A whole cycle
  that fetches LDI and gets as far as the branch table does the same and moves PC by 3.
\<close>

theorem ldi_sets_register:
  assumes len: "length (reg s) = 8" and i: "0 \<le> i" "i \<le> 7"
    and a: "peek (pc s + 1) s = Some (IntV i)" and b: "peek (pc s + 2) s = Some v"
  shows "handle_ldi s = Inr (s\<lparr>mar := pc s + 2, mdr := Some v, reg := (reg s)[nat i := v]\<rparr>)
     \<and> (reg s)[nat i := v] ! nat i = v
     \<and> (\<forall>k<8. k \<noteq> nat i \<longrightarrow> (reg s)[nat i := v] ! k = reg s ! k)
     \<and> (peek (pc s) s = Some (IntV LDI) \<and> reaches_table s \<longrightarrow>
          step fs s = Inr (s\<lparr>ir := Some (IntV LDI), mar := pc s + 2, mdr := Some v,
                             reg := (reg s)[nat i := v], pc := pc s + 3\<rparr>))"
proof -
  have j: "py_index (length (reg s)) i = Some (nat i)"
    using len i by (simp add: py_index_def)
  have h: "handle_ldi s = Inr (s\<lparr>mar := pc s + 2, mdr := Some v, reg := (reg s)[nat i := v]\<rparr>)"
    by (rule handle_ldi_exact [OF j a b])
  have st: "step fs s = Inr (s\<lparr>ir := Some (IntV LDI), mar := pc s + 2, mdr := Some v,
                             reg := (reg s)[nat i := v], pc := pc s + 3\<rparr>)"
    if f: "peek (pc s) s = Some (IntV LDI)" and r: "reaches_table s"
  proof -
    let ?u = "s\<lparr>ir := Some (IntV LDI), mar := pc s + 2, mdr := Some v\<rparr>"
    have "handle_ldi ?u = Inr (?u\<lparr>mar := pc ?u + 2, mdr := Some v, reg := (reg ?u)[nat i := v]\<rparr>)"
      by (rule handle_ldi_exact) (use j a b in simp_all)
    then show ?thesis
      unfolding step_nonalu [OF f bit5_opcodes(2)]
      using r a b by (simp add: reaches_table_def operand_count)
  qed
  have "nat i < length (reg s)" using len i by simp
  then show ?thesis using h st by simp
qed

theorem ldi_sets_register_witness:
  "length (reg (boot [LDI, 0, 8])) = 8 \<and> (0::int) \<le> 0 \<and> (0::int) \<le> 7
   \<and> peek (pc (boot [LDI, 0, 8]) + 1) (boot [LDI, 0, 8]) = Some (IntV 0)
   \<and> peek (pc (boot [LDI, 0, 8]) + 2) (boot [LDI, 0, 8]) = Some (IntV 8)
   \<and> peek (pc (boot [LDI, 0, 8])) (boot [LDI, 0, 8]) = Some (IntV LDI)
   \<and> reaches_table (boot [LDI, 0, 8])
   \<and> handle_ldi (boot [LDI, 0, 8])
       = Inr ((boot [LDI, 0, 8])\<lparr>mar := pc (boot [LDI, 0, 8]) + 2, mdr := Some (IntV 8),
                reg := (reg (boot [LDI, 0, 8]))[nat 0 := IntV 8]\<rparr>)
   \<and> step opaque_floats (boot [LDI, 0, 8])
       = Inr ((boot [LDI, 0, 8])\<lparr>ir := Some (IntV LDI), mar := pc (boot [LDI, 0, 8]) + 2,
                mdr := Some (IntV 8), reg := (reg (boot [LDI, 0, 8]))[nat 0 := IntV 8],
                pc := pc (boot [LDI, 0, 8]) + 3\<rparr>)"
proof -
  let ?s = "boot [LDI, 0, 8]"
  have len: "length (reg ?s) = 8" by code_simp
  have i: "(0::int) \<le> 0" "(0::int) \<le> 7" by simp_all
  have a: "peek (pc ?s + 1) ?s = Some (IntV 0)" by code_simp
  have b: "peek (pc ?s + 2) ?s = Some (IntV 8)" by code_simp
  have f: "peek (pc ?s) ?s = Some (IntV LDI)" by code_simp
  have r: "reaches_table ?s" by code_simp
  show ?thesis
    using len a b f r ldi_sets_register [OF len i a b, of opaque_floats] by simp
qed

subsection \<open>C5: division by zero\<close>

text \<open>
  Claim C5, as amended. DIV with register operands \<open>a\<close> and \<open>b\<close>, where register \<open>b\<close>
  holds zero (the integer 0 or a float zero), always raises and leaves the CPU as it was;
  a cycle of the run loop that fetches such a DIV ends the run with that exception, PC
  still at the instruction. The exception is ZeroDivisionError, except in one case: when
  register \<open>b\<close> holds a float zero and register \<open>a\<close> an integer too large to convert
  to a float, the conversion of the operands raises OverflowError first.
\<close>

theorem div_by_zero:
  assumes a: "py_index (length (reg s)) a = Some ja"
    and b: "py_index (length (reg s)) b = Some jb"
    and z: "py_is_zero fs (reg s ! jb)"
  shows "\<exists>e. alu fs DIV (IntV a) (IntV b) s = Inl (e, s)
     \<and> (e = ZeroDivisionError \<or> e = OverflowError)
     \<and> (e = OverflowError \<longleftrightarrow>
           \<not> is_int (reg s ! jb) \<and> to_float fs (reg s ! ja) = Inl OverflowError)
     \<and> (peek (pc s) s = Some (IntV DIV) \<and> peek (pc s + 1) s = Some (IntV a)
          \<and> peek (pc s + 2) s = Some (IntV b) \<longrightarrow>
        step fs s = Inl (e, s\<lparr>ir := Some (IntV DIV), mar := pc s + 2, mdr := Some (IntV b)\<rparr>)
        \<and> run fs s = (e, s\<lparr>ir := Some (IntV DIV), mar := pc s + 2, mdr := Some (IntV b)\<rparr>))"
proof -
  define e where "e = (if \<not> is_int (reg s ! jb) \<and> to_float fs (reg s ! ja) = Inl OverflowError
                       then OverflowError else ZeroDivisionError)"
  have tz: "py_truediv fs (reg s ! ja) (reg s ! jb) = Inl e"
    unfolding e_def using py_truediv_zero [OF z] by simp
  have al: "alu fs DIV (IntV a) (IntV b) t = Inl (e, t)" if "reg t = reg s" for t
    using that a b tz
    by (simp add: alu_def reg_aug_assign_def list_get_def opcode_defs)
  have st: "step fs s = Inl (e, s\<lparr>ir := Some (IntV DIV), mar := pc s + 2, mdr := Some (IntV b)\<rparr>)"
    if f: "peek (pc s) s = Some (IntV DIV)" and pa: "peek (pc s + 1) s = Some (IntV a)"
      and pb: "peek (pc s + 2) s = Some (IntV b)"
    by (simp add: step_alu [OF f _ pa pb] al)
  have e1: "e = ZeroDivisionError \<or> e = OverflowError" by (simp add: e_def)
  have e2: "e = OverflowError \<longleftrightarrow>
           \<not> is_int (reg s ! jb) \<and> to_float fs (reg s ! ja) = Inl OverflowError"
    by (simp add: e_def)
  show ?thesis
    using al [of s] e1 e2 st run_Inl by blast
qed

theorem div_by_zero_witness:
  "py_index (length (reg ((boot_ranged [DIV, 1, 0])\<lparr>reg := [FloatV 0, IntV 5, IntV 0, IntV 0, IntV 0, IntV 0, IntV 0, IntV 243]\<rparr>))) 1 = Some 1
   \<and> py_index (length (reg ((boot_ranged [DIV, 1, 0])\<lparr>reg := [FloatV 0, IntV 5, IntV 0, IntV 0, IntV 0, IntV 0, IntV 0, IntV 243]\<rparr>))) 0 = Some 0
   \<and> py_is_zero ranged_floats (reg ((boot_ranged [DIV, 1, 0])\<lparr>reg := [FloatV 0, IntV 5, IntV 0, IntV 0, IntV 0, IntV 0, IntV 0, IntV 243]\<rparr>) ! 0)
   \<and> peek (pc ((boot_ranged [DIV, 1, 0])\<lparr>reg := [FloatV 0, IntV 5, IntV 0, IntV 0, IntV 0, IntV 0, IntV 0, IntV 243]\<rparr>))
            ((boot_ranged [DIV, 1, 0])\<lparr>reg := [FloatV 0, IntV 5, IntV 0, IntV 0, IntV 0, IntV 0, IntV 0, IntV 243]\<rparr>) = Some (IntV DIV)
   \<and> peek (pc ((boot_ranged [DIV, 1, 0])\<lparr>reg := [FloatV 0, IntV 5, IntV 0, IntV 0, IntV 0, IntV 0, IntV 0, IntV 243]\<rparr>) + 1)
            ((boot_ranged [DIV, 1, 0])\<lparr>reg := [FloatV 0, IntV 5, IntV 0, IntV 0, IntV 0, IntV 0, IntV 0, IntV 243]\<rparr>) = Some (IntV 1)
   \<and> peek (pc ((boot_ranged [DIV, 1, 0])\<lparr>reg := [FloatV 0, IntV 5, IntV 0, IntV 0, IntV 0, IntV 0, IntV 0, IntV 243]\<rparr>) + 2)
            ((boot_ranged [DIV, 1, 0])\<lparr>reg := [FloatV 0, IntV 5, IntV 0, IntV 0, IntV 0, IntV 0, IntV 0, IntV 243]\<rparr>) = Some (IntV 0)
   \<and> alu ranged_floats DIV (IntV 1) (IntV 0) ((boot_ranged [DIV, 1, 0])\<lparr>reg := [FloatV 0, IntV 5, IntV 0, IntV 0, IntV 0, IntV 0, IntV 0, IntV 243]\<rparr>)
        = Inl (ZeroDivisionError, (boot_ranged [DIV, 1, 0])\<lparr>reg := [FloatV 0, IntV 5, IntV 0, IntV 0, IntV 0, IntV 0, IntV 0, IntV 243]\<rparr>)
   \<and> run ranged_floats ((boot_ranged [DIV, 1, 0])\<lparr>reg := [FloatV 0, IntV 5, IntV 0, IntV 0, IntV 0, IntV 0, IntV 0, IntV 243]\<rparr>)
        = (ZeroDivisionError,
           (boot_ranged [DIV, 1, 0])
             \<lparr>reg := [FloatV 0, IntV 5, IntV 0, IntV 0, IntV 0, IntV 0, IntV 0, IntV 243],
               ir := Some (IntV DIV),
               mar := pc ((boot_ranged [DIV, 1, 0])\<lparr>reg := [FloatV 0, IntV 5, IntV 0, IntV 0, IntV 0, IntV 0, IntV 0, IntV 243]\<rparr>) + 2,
               mdr := Some (IntV 0)\<rparr>)"
proof -
  let ?s = "(boot_ranged [DIV, 1, 0])\<lparr>reg := [FloatV 0, IntV 5, IntV 0, IntV 0, IntV 0, IntV 0, IntV 0, IntV 243]\<rparr>"
  have a: "py_index (length (reg ?s)) 1 = Some 1" by code_simp
  have b: "py_index (length (reg ?s)) 0 = Some 0" by code_simp
  have z: "py_is_zero ranged_floats (reg ?s ! 0)" by code_simp
  have f: "peek (pc ?s) ?s = Some (IntV DIV)" by code_simp
  have pa: "peek (pc ?s + 1) ?s = Some (IntV 1)" by code_simp
  have pb: "peek (pc ?s + 2) ?s = Some (IntV 0)" by code_simp
  have cv: "to_float ranged_floats (reg ?s ! 1) \<noteq> Inl OverflowError" by code_simp
  from div_by_zero [OF a b z] f pa pb cv
  have "alu ranged_floats DIV (IntV 1) (IntV 0) ?s = Inl (ZeroDivisionError, ?s)
        \<and> run ranged_floats ?s
            = (ZeroDivisionError, ?s\<lparr>ir := Some (IntV DIV), mar := pc ?s + 2, mdr := Some (IntV 0)\<rparr>)"
    by auto
  then show ?thesis using a b z f pa pb by simp
qed

text \<open>
  Claim C5 as stated fails in that one case. The program
  \<^verbatim>\<open>LDI R1,5; LDI R2,16; MUL R2,R2\<close> (eight times)\<^verbatim>\<open>; DIV R0,R1; DIV R2,R0\<close> first
  squares register 2 up to \<open>2 ^ 1024\<close> and makes register 0 the float zero \<open>0 / 5\<close>; the
  last DIV then divides by a register that equals zero, and the run ends with
  OverflowError, not with ZeroDivisionError.
\<close>

theorem div_float_zero_overflow_counterexample:
  "run ranged_floats
       (boot_ranged ([LDI, 1, 5, LDI, 2, 16] @ concat (replicate 8 [MUL, 2, 2])
                     @ [DIV, 0, 1, DIV, 2, 0]))
     = (OverflowError,
        (boot_ranged ([LDI, 1, 5, LDI, 2, 16] @ concat (replicate 8 [MUL, 2, 2])
                      @ [DIV, 0, 1, DIV, 2, 0]))
          \<lparr>reg := [FloatV 0, IntV 5, IntV (2 ^ 1024), IntV 0, IntV 0, IntV 0, IntV 0, IntV 243],
            pc := 33, ir := Some (IntV DIV), mar := 35, mdr := Some (IntV 0)\<rparr>)
   \<and> py_is_zero ranged_floats (FloatV 0)
   \<and> alu ranged_floats DIV (IntV 2) (IntV 0)
        ((init_cpu :: rat cpu)
          \<lparr>reg := [FloatV 0, IntV 5, IntV (2 ^ 1024), IntV 0, IntV 0, IntV 0, IntV 0, IntV 243]\<rparr>)
     = Inl (OverflowError,
            (init_cpu :: rat cpu)
              \<lparr>reg := [FloatV 0, IntV 5, IntV (2 ^ 1024), IntV 0, IntV 0, IntV 0, IntV 0, IntV 243]\<rparr>)"
  by code_simp

subsection \<open>C6: addresses outside the memory\<close>

text \<open>
  Claim C6, as amended. With the 256 cells of \<^verbatim>\<open>__init__\<close>, every read or write at an
  address below -256 or above 255 raises IndexError and changes neither memory nor
  registers; nothing wraps around beyond address 255. In particular a cycle whose
  instruction byte sits so close to the top of memory that PC+1 or PC+2 is such an
  address ends with IndexError at the operand pre-fetch.
\<close>

theorem out_of_range_faults:
  assumes len: "length (ram s) = 256" and a: "a < - 256 \<or> 255 < a"
  shows "ram_read a s = Inl (IndexError, s\<lparr>mar := a\<rparr>)
     \<and> ram_write a v s = Inl (IndexError, s\<lparr>mar := a, mdr := Some v\<rparr>)
     \<and> (peek (pc s) s = Some (IntV i) \<and> (pc s + 1 = a \<or> pc s + 2 = a) \<longrightarrow>
          (\<exists>s'. step fs s = Inl (IndexError, s') \<and> pc s' = pc s \<and> ram s' = ram s
                \<and> reg s' = reg s \<and> sp s' = sp s))"
proof -
  have n: "py_index (length (ram s)) a = None"
    using len a by (auto simp: py_index_def)
  then have pk: "peek a s = None" by (simp add: peek_def)
  have "\<exists>s'. step fs s = Inl (IndexError, s') \<and> pc s' = pc s \<and> ram s' = ram s
                \<and> reg s' = reg s \<and> sp s' = sp s"
    if f: "peek (pc s) s = Some (IntV i)" and p: "pc s + 1 = a \<or> pc s + 2 = a"
  proof (cases "peek (pc s + 1) s")
    case None
    with f show ?thesis by (simp add: step_def ram_read_peek Let_def)
  next
    case (Some b1)
    with p pk have "peek (pc s + 2) s = None" by auto
    with f Some show ?thesis by (simp add: step_def ram_read_peek Let_def)
  qed
  then show ?thesis using n by (simp add: ram_read_def ram_write_def Let_def)
qed

theorem out_of_range_faults_witness:
  "length (ram (boot [])) = 256 \<and> ((256::int) < - 256 \<or> (255::int) < 256)
   \<and> peek (pc ((boot [])\<lparr>pc := 254\<rparr>)) ((boot [])\<lparr>pc := 254\<rparr>) = Some (IntV 0)
   \<and> ram_read 256 ((boot [])\<lparr>pc := 254\<rparr>) = Inl (IndexError, (boot [])\<lparr>pc := 254, mar := 256\<rparr>)
   \<and> ram_write 256 (IntV 1) ((boot [])\<lparr>pc := 254\<rparr>)
       = Inl (IndexError, (boot [])\<lparr>pc := 254, mar := 256, mdr := Some (IntV 1)\<rparr>)
   \<and> (\<exists>s'. step opaque_floats ((boot [])\<lparr>pc := 254\<rparr>) = Inl (IndexError, s'))"
proof -
  let ?s = "(boot [])\<lparr>pc := 254\<rparr>"
  have len: "length (ram ?s) = 256" by code_simp
  have a: "(256::int) < - 256 \<or> (255::int) < 256" by simp
  have f: "peek (pc ?s) ?s = Some (IntV 0)" by code_simp
  have p: "pc ?s + 2 = 256" by simp
  show ?thesis
    using len f p out_of_range_faults [OF len a, of "IntV 1" 0 opaque_floats] by auto
qed

text \<open>
  Claim C6 as stated fails for the addresses from -256 to -1, which are outside
  \<open>[0, 255]\<close> and are no fault: reading address -1 returns the content of cell 255, and
  writing address -1 changes cell 255.
\<close>

theorem negative_address_counterexample:
  "ram_read (- 1) ((init_cpu :: unit cpu)\<lparr>ram := (ram init_cpu)[255 := IntV 9]\<rparr>)
     = Inr (IntV 9, init_cpu\<lparr>ram := (ram init_cpu)[255 := IntV 9], mar := - 1, mdr := Some (IntV 9)\<rparr>)
   \<and> ram_write (- 1) (IntV 9) (init_cpu :: unit cpu)
     = Inr (init_cpu\<lparr>ram := (ram init_cpu)[255 := IntV 9], mar := - 1, mdr := Some (IntV 9)\<rparr>)"
  by code_simp

subsection \<open>C7: an opcode without a handler\<close>

text \<open>
  Claim C7, as amended. A cycle that fetches an integer instruction with bit 5 clear and
  no entry in the branch table always ends the run with an exception other than
  \<^verbatim>\<open>SystemExit\<close>, with PC, memory, registers and SP untouched; the exception is KeyError
  whenever the cycle gets as far as the table lookup, that is, whenever PC+1 and PC+2 can
  be read and \<^verbatim>\<open>trace\<close> has only integers to format.
\<close>

theorem unknown_opcode_fatal:
  assumes "peek (pc s) s = Some (IntV i)" and "drop_bit 5 i AND 1 = 0"
    and "branchtable i = None"
  shows "\<exists>e s'. step fs s = Inl (e, s') \<and> run fs s = (e, s') \<and> e \<noteq> SystemExit
        \<and> pc s' = pc s \<and> ram s' = ram s \<and> reg s' = reg s \<and> sp s' = sp s \<and> out s' = out s
        \<and> (reaches_table s \<longrightarrow> e = KeyError)"
proof -
  from step_nonalu_fault [OF assms(1,2), of KeyError fs] assms(3)
  obtain e s' where st: "step fs s = Inl (e, s')"
    and fr: "pc s' = pc s" "ram s' = ram s" "reg s' = reg s" "sp s' = sp s" "out s' = out s"
    and ne: "e \<noteq> SystemExit"
    and ex: "reaches_table s \<longrightarrow> e = KeyError"
    by auto
  have "run fs s = (e, s')" using run_Inl [OF st] .
  with st fr ne ex show ?thesis by blast
qed

theorem unknown_opcode_fatal_witness:
  "peek (pc (boot [])) (boot []) = Some (IntV 0) \<and> drop_bit 5 (0::int) AND 1 = 0
   \<and> branchtable 0 = None \<and> reaches_table (boot [])
   \<and> (\<exists>s'. step opaque_floats (boot []) = Inl (KeyError, s')
            \<and> run opaque_floats (boot []) = (KeyError, s') \<and> pc s' = pc (boot []))"
proof -
  let ?s = "boot []"
  have f: "peek (pc ?s) ?s = Some (IntV 0)" by code_simp
  have b: "drop_bit 5 (0::int) AND 1 = 0" by simp
  have t: "branchtable 0 = None" by code_simp
  have r: "reaches_table ?s" by code_simp
  show ?thesis
    using f b t r unknown_opcode_fatal [OF f b t, of opaque_floats] by auto
qed

text \<open>
  Claim C7 as stated fails at the top of memory: with PC = 254 the byte 0 (bit 5 clear, no
  handler) is fetched, and the read of PC+2 = 256 raises IndexError before the branch
  table is consulted. PC = 254 is reached from reset, for example by 84 times
  \<^verbatim>\<open>ADD R0,R0\<close> followed by \<^verbatim>\<open>PRN R0\<close>.
\<close>

theorem unknown_opcode_top_of_memory_counterexample:
  "peek (pc ((boot [])\<lparr>pc := 254\<rparr>)) ((boot [])\<lparr>pc := 254\<rparr>) = Some (IntV 0)
   \<and> drop_bit 5 (0::int) AND 1 = 0 \<and> branchtable 0 = None
   \<and> step opaque_floats ((boot [])\<lparr>pc := 254\<rparr>)
        = Inl (IndexError, (boot [])\<lparr>pc := 254, ir := Some (IntV 0), mar := 256, mdr := Some (IntV 0)\<rparr>)
   \<and> run opaque_floats ((boot [])\<lparr>pc := 254\<rparr>)
        = (IndexError, (boot [])\<lparr>pc := 254, ir := Some (IntV 0), mar := 256, mdr := Some (IntV 0)\<rparr>)"
proof -
  have st: "step opaque_floats ((boot [])\<lparr>pc := 254\<rparr>)
        = Inl (IndexError, (boot [])\<lparr>pc := 254, ir := Some (IntV 0), mar := 256, mdr := Some (IntV 0)\<rparr>)"
    by code_simp
  have "peek (pc ((boot [])\<lparr>pc := 254\<rparr>)) ((boot [])\<lparr>pc := 254\<rparr>) = Some (IntV 0)
     \<and> drop_bit 5 (0::int) AND 1 = 0 \<and> branchtable 0 = None"
    by code_simp
  then show ?thesis using st run_Inl [OF st] by simp
qed

lemma top_of_memory_reachable:
  "run opaque_floats (boot (concat (replicate 84 [ADD, 0, 0]) @ [PRN, 0]))
     = (IndexError,
        (boot (concat (replicate 84 [ADD, 0, 0]) @ [PRN, 0]))
          \<lparr>pc := 254, ir := Some (IntV 0), mar := 256, mdr := Some (IntV 0),
            out := [IntV 0]\<rparr>)"
  by code_simp

subsection \<open>C8: an unsupported ALU operation\<close>

text \<open>
  Claim C8. Dispatching an instruction with bit 5 set that is none of ADD, SUB, MUL, DIV
  raises the exception "Unsupported ALU operation", whatever the operands, and leaves the
  CPU as it was.
\<close>

theorem alu_unsupported:
  "drop_bit 5 i AND 1 \<noteq> 0 \<Longrightarrow> i \<notin> {ADD, SUB, MUL, DIV} \<Longrightarrow>
     alu fs i a b s = Inl (UnsupportedALU, s) \<and> dispatch fs i a b s = Inl (UnsupportedALU, s)"
  by (simp add: dispatch_def alu_def)

theorem alu_unsupported_witness:
  "drop_bit 5 (164::int) AND 1 \<noteq> 0 \<and> (164::int) \<notin> {ADD, SUB, MUL, DIV}
   \<and> alu opaque_floats 164 (IntV 0) (IntV 0) init_cpu = Inl (UnsupportedALU, init_cpu)
   \<and> dispatch opaque_floats 164 (IntV 0) (IntV 0) init_cpu = Inl (UnsupportedALU, init_cpu)"
proof -
  have a: "drop_bit 5 (164::int) AND 1 \<noteq> 0"
    by (simp add: drop_bit_eq_div and_one_eq)
  have b: "(164::int) \<notin> {ADD, SUB, MUL, DIV}"
    by (simp add: opcode_defs)
  show ?thesis
    using a b alu_unsupported [OF a b, of opaque_floats "IntV 0" "IntV 0" init_cpu] by simp
qed

subsection \<open>C9: HLT\<close>

text \<open>
  Claim C9. \<^verbatim>\<open>handle_hlt\<close> raises \<^verbatim>\<open>SystemExit\<close> without touching the CPU. A cycle that
  fetches HLT never runs to its end: the run stops in that very cycle, with PC, memory,
  registers, SP and output as they were before it, so PC is not advanced and nothing
  after the HLT is executed; the run stops with \<^verbatim>\<open>SystemExit\<close> whenever the cycle gets
  as far as the branch table.
\<close>

theorem halt_stops:
  assumes "peek (pc s) s = Some (IntV HLT)"
  shows "handle_hlt s = Inl (SystemExit, s) \<and>
    (\<exists>e s'. step fs s = Inl (e, s') \<and> run fs s = (e, s')
        \<and> pc s' = pc s \<and> ram s' = ram s \<and> reg s' = reg s \<and> sp s' = sp s \<and> out s' = out s
        \<and> (reaches_table s \<longrightarrow> e = SystemExit))"
proof -
  from step_nonalu_fault [OF assms bit5_opcodes(1), of SystemExit fs]
  obtain e s' where st: "step fs s = Inl (e, s')"
    and fr: "pc s' = pc s" "ram s' = ram s" "reg s' = reg s" "sp s' = sp s" "out s' = out s"
    and ex: "reaches_table s \<longrightarrow> e = SystemExit"
    by auto
  have "run fs s = (e, s')" using run_Inl [OF st] .
  with st fr ex show ?thesis
    unfolding handle_hlt_def by blast
qed

theorem halt_stops_witness:
  "peek (pc (boot [HLT])) (boot [HLT]) = Some (IntV HLT) \<and> reaches_table (boot [HLT])
   \<and> handle_hlt (boot [HLT]) = Inl (SystemExit, boot [HLT])
   \<and> (\<exists>s'. step opaque_floats (boot [HLT]) = Inl (SystemExit, s')
            \<and> run opaque_floats (boot [HLT]) = (SystemExit, s') \<and> pc s' = pc (boot [HLT])
            \<and> ram s' = ram (boot [HLT]) \<and> reg s' = reg (boot [HLT]))"
proof -
  let ?s = "boot [HLT]"
  have f: "peek (pc ?s) ?s = Some (IntV HLT)" by code_simp
  have r: "reaches_table ?s" by code_simp
  show ?thesis
    using f r halt_stops [OF f, of opaque_floats] by auto
qed

subsection \<open>C10: negative addresses\<close>

text \<open>
  Claim C10. With the 256 cells of \<^verbatim>\<open>__init__\<close>, a read or write at an address \<open>a\<close>
  from -256 to -1 does not fault but accesses cell \<open>256 + a\<close>; and a PUSH executed with
  SP = 0 sets SP to -1 and writes the value of the named register to cell 255.
\<close>

theorem negative_address_wraps:
  assumes len: "length (ram s) = 256"
  shows "(- 256 \<le> a \<and> a \<le> - 1 \<longrightarrow>
            ram_read a s = Inr (ram s ! nat (256 + a),
                                s\<lparr>mar := a, mdr := Some (ram s ! nat (256 + a))\<rparr>)
          \<and> ram_write a v s = Inr (s\<lparr>mar := a, mdr := Some v, ram := (ram s)[nat (256 + a) := v]\<rparr>))
     \<and> (sp s = 0 \<and> named_reg s = Some v \<longrightarrow>
            handle_push s = Inr (s\<lparr>sp := - 1, mar := - 1, mdr := Some v, ram := (ram s)[255 := v]\<rparr>))"
proof -
  have rw: "ram_read a s = Inr (ram s ! nat (256 + a),
                                s\<lparr>mar := a, mdr := Some (ram s ! nat (256 + a))\<rparr>)
          \<and> ram_write a v s = Inr (s\<lparr>mar := a, mdr := Some v, ram := (ram s)[nat (256 + a) := v]\<rparr>)"
    if "- 256 \<le> a" "a \<le> - 1"
    using that len by (simp add: ram_read_def ram_write_def py_index_def Let_def add.commute)
  have pu: "handle_push s = Inr (s\<lparr>sp := - 1, mar := - 1, mdr := Some v, ram := (ram s)[255 := v]\<rparr>)"
    if "sp s = 0" "named_reg s = Some v"
    using that len
    by (auto simp: handle_push_def named_reg_def reg_peek_def ram_read_peek ram_write_index
          py_index_def Let_def split: option.splits sum.splits)
  show ?thesis using rw pu by blast
qed

theorem negative_address_wraps_witness:
  "length (ram ((boot [PUSH, 7])\<lparr>sp := 0\<rparr>)) = 256 \<and> (- 256 :: int) \<le> - 1 \<and> (- 1 :: int) \<le> - 1
   \<and> sp ((boot [PUSH, 7])\<lparr>sp := 0\<rparr>) = 0
   \<and> named_reg ((boot [PUSH, 7])\<lparr>sp := 0\<rparr>) = Some (IntV 243)
   \<and> ram_read (- 1) ((boot [PUSH, 7])\<lparr>sp := 0\<rparr>)
       = Inr (ram ((boot [PUSH, 7])\<lparr>sp := 0\<rparr>) ! nat (256 + - 1),
              (boot [PUSH, 7])\<lparr>sp := 0, mar := - 1,
                 mdr := Some (ram ((boot [PUSH, 7])\<lparr>sp := 0\<rparr>) ! nat (256 + - 1))\<rparr>)
   \<and> ram_write (- 1) (IntV 243) ((boot [PUSH, 7])\<lparr>sp := 0\<rparr>)
       = Inr ((boot [PUSH, 7])\<lparr>sp := 0, mar := - 1, mdr := Some (IntV 243),
                ram := (ram ((boot [PUSH, 7])\<lparr>sp := 0\<rparr>))[nat (256 + - 1) := IntV 243]\<rparr>)
   \<and> handle_push ((boot [PUSH, 7])\<lparr>sp := 0\<rparr>)
       = Inr ((boot [PUSH, 7])\<lparr>sp := - 1, mar := - 1, mdr := Some (IntV 243),
                ram := (ram ((boot [PUSH, 7])\<lparr>sp := 0\<rparr>))[255 := IntV 243]\<rparr>)"
proof -
  let ?s = "(boot [PUSH, 7])\<lparr>sp := 0\<rparr>"
  have len: "length (ram ?s) = 256" by code_simp
  have n: "named_reg ?s = Some (IntV 243)" by code_simp
  have s0: "sp ?s = 0" by simp
  show ?thesis
    using len n s0 negative_address_wraps [OF len, of "- 1" "IntV 243"] by simp
qed


end
